theory Spec2Isabelle
  imports Complex_Main
begin

section \<open>Values of the program\<close>

subsection \<open>Tables and failures\<close>

text \<open>
  A table is Go's \<^verbatim>\<open>[][]string\<close>: a list of rows, a row a list of cells. Rows
  need not have the same length.
\<close>

type_synonym row = "string list"
type_synonym table = "row list"

text \<open>
  The ways a run ends other than by returning: the runtime panics of slice indexing
  and slicing, the panic of gonum's length check, and \<^verbatim>\<open>log.Fatalf\<close> with its message.
\<close>

datatype failure =
    IndexOutOfRange
  | SliceBoundsOutOfRange
  | LengthMismatch
  | Fatal string

text \<open>\<^verbatim>\<open>s[i]\<close> for an \<^verbatim>\<open>int\<close> index: a panic outside \<open>0 \<le> i < len(s)\<close>.\<close>

definition index :: "'a list \<Rightarrow> int \<Rightarrow> failure + 'a" where
  "index s i = (if 0 \<le> i \<and> i < int (length s) then Inr (s ! nat i) else Inl IndexOutOfRange)"

text \<open>\<^verbatim>\<open>s[1:]\<close>: a panic when \<^verbatim>\<open>len(s) = 0\<close>, the rows after the first otherwise.\<close>

fun sliceFrom1 :: "'a list \<Rightarrow> failure + 'a list" where
  "sliceFrom1 [] = Inl SliceBoundsOutOfRange"
| "sliceFrom1 (x # xs) = Inr xs"

subsection \<open>float64\<close>

text \<open>
  A \<^verbatim>\<open>float64\<close> is NaN, one of the two infinities, or a finite value. Finite values
  are carried as exact reals: the rounding of a result to 53 bits, and with it the
  underflow of a tiny result to a subnormal or to zero, is not modelled, and the two
  zeros of IEEE 754 are one value. The special values are modelled as IEEE 754
  defines them: NaN is unordered and propagates, a result whose magnitude reaches
  \<open>2^1024 - 2^970\<close> (where binary64 rounds to infinity) overflows, and division by
  zero gives NaN or an infinity. \<open>mk r\<close> is the float64 of a result whose exact value
  is \<open>r\<close>.
\<close>

datatype float64 = NaN | PInf | NInf | Fin real

definition overflowThreshold :: real where
  "overflowThreshold = 2 ^ 1024 - 2 ^ 970"

definition mk :: "real \<Rightarrow> float64" where
  "mk r = (if overflowThreshold \<le> r then PInf
           else if r \<le> - overflowThreshold then NInf
           else Fin r)"

fun fneg :: "float64 \<Rightarrow> float64" where
  "fneg NaN = NaN"
| "fneg PInf = NInf"
| "fneg NInf = PInf"
| "fneg (Fin a) = Fin (- a)"

fun fadd :: "float64 \<Rightarrow> float64 \<Rightarrow> float64" where
  "fadd (Fin a) (Fin b) = mk (a + b)"
| "fadd NaN _ = NaN"
| "fadd _ NaN = NaN"
| "fadd PInf NInf = NaN"
| "fadd NInf PInf = NaN"
| "fadd PInf _ = PInf"
| "fadd _ PInf = PInf"
| "fadd NInf _ = NInf"
| "fadd _ NInf = NInf"

definition fsub :: "float64 \<Rightarrow> float64 \<Rightarrow> float64" where
  "fsub a b = fadd a (fneg b)"

text \<open>The sign of an infinite product or quotient: that of the finite, non-zero operand.\<close>

definition signedInf :: "bool \<Rightarrow> float64" where
  "signedInf positive = (if positive then PInf else NInf)"

fun fmul :: "float64 \<Rightarrow> float64 \<Rightarrow> float64" where
  "fmul (Fin a) (Fin b) = mk (a * b)"
| "fmul NaN _ = NaN"
| "fmul _ NaN = NaN"
| "fmul PInf PInf = PInf"
| "fmul PInf NInf = NInf"
| "fmul NInf PInf = NInf"
| "fmul NInf NInf = PInf"
| "fmul PInf (Fin b) = (if b = 0 then NaN else signedInf (0 < b))"
| "fmul NInf (Fin b) = (if b = 0 then NaN else signedInf (b < 0))"
| "fmul (Fin a) PInf = (if a = 0 then NaN else signedInf (0 < a))"
| "fmul (Fin a) NInf = (if a = 0 then NaN else signedInf (a < 0))"

fun fdiv :: "float64 \<Rightarrow> float64 \<Rightarrow> float64" where
  "fdiv (Fin a) (Fin b) =
     (if b = 0 then (if a = 0 then NaN else signedInf (0 < a)) else mk (a / b))"
| "fdiv NaN _ = NaN"
| "fdiv _ NaN = NaN"
| "fdiv PInf (Fin b) = signedInf (0 \<le> b)"
| "fdiv NInf (Fin b) = signedInf (b < 0)"
| "fdiv (Fin a) PInf = Fin 0"
| "fdiv (Fin a) NInf = Fin 0"
| "fdiv PInf _ = NaN"
| "fdiv NInf _ = NaN"

text \<open>Go's \<^verbatim>\<open><\<close> and \<^verbatim>\<open>==\<close> on float64: false whenever an operand is NaN.\<close>

fun fless :: "float64 \<Rightarrow> float64 \<Rightarrow> bool" where
  "fless (Fin a) (Fin b) = (a < b)"
| "fless NaN _ = False"
| "fless _ NaN = False"
| "fless NInf NInf = False"
| "fless NInf _ = True"
| "fless _ NInf = False"
| "fless PInf _ = False"
| "fless _ PInf = True"

fun feq :: "float64 \<Rightarrow> float64 \<Rightarrow> bool" where
  "feq (Fin a) (Fin b) = (a = b)"
| "feq PInf PInf = True"
| "feq NInf NInf = True"
| "feq _ _ = False"

subsection \<open>The math package\<close>

text \<open>
  \<^verbatim>\<open>math.Sin\<close>, \<^verbatim>\<open>math.Cos\<close>, \<^verbatim>\<open>math.Sqrt\<close> and \<^verbatim>\<open>math.Atan2\<close> with the special
  cases their documentation lists; on finite arguments the exact real function.
\<close>

fun Sin :: "float64 \<Rightarrow> float64" where
  "Sin (Fin a) = Fin (sin a)"
| "Sin _ = NaN"

fun Cos :: "float64 \<Rightarrow> float64" where
  "Cos (Fin a) = Fin (cos a)"
| "Cos _ = NaN"

fun Sqrt :: "float64 \<Rightarrow> float64" where
  "Sqrt (Fin a) = (if a < 0 then NaN else Fin (sqrt a))"
| "Sqrt PInf = PInf"
| "Sqrt _ = NaN"

fun Atan2 :: "float64 \<Rightarrow> float64 \<Rightarrow> float64" where
  "Atan2 (Fin y) (Fin x) =
     Fin (if 0 < x then arctan (y / x)
          else if x < 0 then (if 0 \<le> y then arctan (y / x) + pi else arctan (y / x) - pi)
          else if 0 < y then pi / 2
          else if y < 0 then - (pi / 2)
          else 0)"
| "Atan2 NaN _ = NaN"
| "Atan2 _ NaN = NaN"
| "Atan2 PInf PInf = Fin (pi / 4)"
| "Atan2 NInf PInf = Fin (- (pi / 4))"
| "Atan2 PInf NInf = Fin (3 * pi / 4)"
| "Atan2 NInf NInf = Fin (- (3 * pi / 4))"
| "Atan2 (Fin y) PInf = Fin 0"
| "Atan2 (Fin y) NInf = (if y < 0 then Fin (- pi) else Fin pi)"
| "Atan2 PInf (Fin x) = Fin (pi / 2)"
| "Atan2 NInf (Fin x) = Fin (- (pi / 2))"

section \<open>The program\<close>

subsection \<open>filterAlgeria\<close>




subsection \<open>haversine\<close>

definition haversine :: "float64 \<Rightarrow> float64 \<Rightarrow> float64 \<Rightarrow> float64 \<Rightarrow> float64" where
  "haversine lat1 lon1 lat2 lon2 =
     (let dLat = fmul (fsub lat2 lat1) (Fin (pi / 180));
          dLon = fmul (fsub lon2 lon1) (Fin (pi / 180));
          a = fadd (fmul (Sin (fdiv dLat (Fin 2))) (Sin (fdiv dLat (Fin 2))))
                (fmul (fmul (fmul (Cos (fmul lat1 (Fin (pi / 180))))
                                  (Cos (fmul lat2 (Fin (pi / 180)))))
                            (Sin (fdiv dLon (Fin 2))))
                      (Sin (fdiv dLon (Fin 2))));
          c = fmul (Fin 2) (Atan2 (Sqrt a) (Sqrt (fsub (Fin 1) a)))
      in fmul (Fin 6371) c)"

subsection \<open>parseFloat\<close>

text \<open>
  The parameter \<open>ParseFloat\<close> stands for the standard library's part of the function:
  \<open>ParseFloat s\<close> is what \<^verbatim>\<open>strconv.ParseFloat(strings.TrimSpace(s), 64)\<close> returns,
  \<open>None\<close> when it returns an error.
\<close>

definition parseFloat :: "(string \<Rightarrow> float64 option) \<Rightarrow> string \<Rightarrow> float64" where
  "parseFloat ParseFloat s = (case ParseFloat s of None \<Rightarrow> Fin 0 | Some val \<Rightarrow> val)"

subsection \<open>joinDatasets\<close>

text \<open>
  The inner loop over the right rows, with its two variables \<open>closestDist\<close> and
  \<open>bestMatch\<close> (\<open>None\<close> for \<^verbatim>\<open>nil\<close>) as the state.
\<close>

fun scanRight ::
  "(string \<Rightarrow> float64 option) \<Rightarrow> float64 \<Rightarrow> float64 \<Rightarrow> int \<Rightarrow> int \<Rightarrow> table \<Rightarrow>
   float64 \<times> row option \<Rightarrow> failure + (float64 \<times> row option)" where
  "scanRight pf csvLat csvLon excelLatCol excelLonCol [] st = Inr st"
| "scanRight pf csvLat csvLon excelLatCol excelLonCol (excelRow # rest) (closestDist, bestMatch) =
     (case index excelRow excelLatCol of
        Inl e \<Rightarrow> Inl e
      | Inr latCell \<Rightarrow>
         (case index excelRow excelLonCol of
            Inl e \<Rightarrow> Inl e
          | Inr lonCell \<Rightarrow>
             (let distance = haversine csvLat csvLon (parseFloat pf latCell) (parseFloat pf lonCell)
              in if fless distance closestDist
                 then scanRight pf csvLat csvLon excelLatCol excelLonCol rest
                        (distance, Some excelRow)
                 else scanRight pf csvLat csvLon excelLatCol excelLonCol rest
                        (closestDist, bestMatch))))"

text \<open>
  The outer loop over the left rows, with \<open>joined\<close> and \<open>dangling\<close> as the state. The
  slice \<^verbatim>\<open>excelData[1:]\<close> is taken once for every left row, after its two cells are read.
\<close>

fun joinRows ::
  "(string \<Rightarrow> float64 option) \<Rightarrow> int \<Rightarrow> int \<Rightarrow> int \<Rightarrow> int \<Rightarrow> table \<Rightarrow> table \<Rightarrow>
   table \<times> table \<Rightarrow> failure + (table \<times> table)" where
  "joinRows pf csvLatCol csvLonCol excelLatCol excelLonCol [] excelData st = Inr st"
| "joinRows pf csvLatCol csvLonCol excelLatCol excelLonCol (csvRow # rest) excelData (joined, dangling) =
     (case index csvRow csvLatCol of
        Inl e \<Rightarrow> Inl e
      | Inr latCell \<Rightarrow>
         (case index csvRow csvLonCol of
            Inl e \<Rightarrow> Inl e
          | Inr lonCell \<Rightarrow>
             (case sliceFrom1 excelData of
                Inl e \<Rightarrow> Inl e
              | Inr excelRows \<Rightarrow>
                 (case scanRight pf (parseFloat pf latCell) (parseFloat pf lonCell)
                         excelLatCol excelLonCol excelRows (Fin 3, None) of
                    Inl e \<Rightarrow> Inl e
                  | Inr (closestDist, bestMatch) \<Rightarrow>
                     (case bestMatch of
                        Some m \<Rightarrow>
                          joinRows pf csvLatCol csvLonCol excelLatCol excelLonCol rest excelData
                            (joined @ [csvRow @ m], dangling)
                      | None \<Rightarrow>
                          joinRows pf csvLatCol csvLonCol excelLatCol excelLonCol rest excelData
                            (joined, dangling @ [csvRow]))))))"

definition joinDatasets ::
  "(string \<Rightarrow> float64 option) \<Rightarrow> table \<Rightarrow> table \<Rightarrow> int \<Rightarrow> int \<Rightarrow> int \<Rightarrow> int \<Rightarrow>
   failure + (table \<times> table)" where
  "joinDatasets pf csvData excelData csvLatCol csvLonCol excelLatCol excelLonCol =
     (case sliceFrom1 csvData of
        Inl e \<Rightarrow> Inl e
      | Inr csvRows \<Rightarrow>
          joinRows pf csvLatCol csvLonCol excelLatCol excelLonCol csvRows excelData ([], []))"

subsection \<open>extractRegressionData\<close>



subsection \<open>normalize\<close>

text \<open>The first loop: the running minimum and maximum, both started at \<^verbatim>\<open>data[0]\<close>.\<close>

fun minMax :: "float64 list \<Rightarrow> float64 \<times> float64 \<Rightarrow> float64 \<times> float64" where
  "minMax [] st = st"
| "minMax (val # rest) (minVal, maxVal) =
     minMax rest (if fless val minVal then val else minVal,
                  if fless maxVal val then val else maxVal)"

definition normalize :: "float64 list \<Rightarrow> failure + float64 list" where
  "normalize data =
     (case index data 0 of
        Inl e \<Rightarrow> Inl e
      | Inr d0 \<Rightarrow>
         (case minMax data (d0, d0) of
            (minVal, maxVal) \<Rightarrow>
              Inr (map (\<lambda>val. fdiv (fsub val minVal) (fsub maxVal minVal)) data)))"

subsection \<open>The stat package of gonum\<close>

text \<open>
  \<^verbatim>\<open>gonum.org/v1/gonum/stat\<close> is a dependency; the repository does not hold its text.
  The functions below follow the library, for \<^verbatim>\<open>weights = nil\<close> and
  \<^verbatim>\<open>origin = false\<close>. \<^verbatim>\<open>Mean\<close> is the sum over the length. The variance and the
  covariance are the unbiased ones, computed by the corrected two-pass algorithm: one
  loop adds up the products of the deviations from the means and the deviations
  themselves, and the product of the two sums of deviations over \<open>n\<close> is taken off
  before the division by \<open>n - 1\<close>. \<^verbatim>\<open>LinearRegression(x, y, weights, origin)\<close>
  panics unless \<^verbatim>\<open>len(x) = len(y)\<close> and returns the \<open>alpha\<close> and \<open>beta\<close> of the
  best-fit line \<open>y = alpha + beta * x\<close>, as \<open>beta = cov(x, y) / var(x)\<close> and
  \<open>alpha = mean(y) - beta * mean(x)\<close>. Its first argument is the independent
  variable, its second the dependent one.
\<close>

definition floatsSum :: "float64 list \<Rightarrow> float64" where
  "floatsSum x = foldl fadd (Fin 0) x"

definition Mean :: "float64 list \<Rightarrow> float64" where
  "Mean x = fdiv (floatsSum x) (Fin (real (length x)))"

definition MeanVariance :: "float64 list \<Rightarrow> float64 \<times> float64" where
  "MeanVariance x =
     (let mean = Mean x;
          ss = floatsSum (map (\<lambda>v. fmul (fsub v mean) (fsub v mean)) x);
          compensation = floatsSum (map (\<lambda>v. fsub v mean) x);
          unnormalisedVariance =
            fsub ss (fdiv (fmul compensation compensation) (Fin (real (length x))))
      in (mean, fdiv unnormalisedVariance (fsub (Fin (real (length x))) (Fin 1))))"

definition covarianceMeans :: "float64 list \<Rightarrow> float64 list \<Rightarrow> float64 \<Rightarrow> float64 \<Rightarrow> float64" where
  "covarianceMeans x y xu yu =
     (let ss = floatsSum (map (\<lambda>(xv, yv). fmul (fsub xv xu) (fsub yv yu)) (zip x y));
          xcompensation = floatsSum (map (\<lambda>(xv, yv). fsub xv xu) (zip x y));
          ycompensation = floatsSum (map (\<lambda>(xv, yv). fsub yv yu) (zip x y))
      in fdiv (fsub ss (fdiv (fmul xcompensation ycompensation) (Fin (real (length x)))))
              (Fin (real_of_int (int (length x) - 1))))"

definition LinearRegression :: "float64 list \<Rightarrow> float64 list \<Rightarrow> failure + (float64 \<times> float64)" where
  "LinearRegression x y =
     (if length x \<noteq> length y then Inl LengthMismatch
      else
        (case MeanVariance x of
           (xu, xv) \<Rightarrow>
             (let yu = Mean y;
                  cov = covarianceMeans x y xu yu;
                  beta = fdiv cov xv;
                  alpha = fsub yu (fmul beta xu)
              in Inr (alpha, beta))))"

subsection \<open>runRegression\<close>

text \<open>
  What the function prints: the preview of at most ten pairs, \<open>alpha\<close> (the
  intercept), \<open>beta\<close> (the slope) and R squared.
\<close>

record regressionResult =
  preview :: "(float64 \<times> float64) list"
  intercept :: float64
  slope :: float64
  rSquared :: float64

text \<open>The loop that collects \<^verbatim>\<open>row[0]\<close> of every sample.\<close>

fun firstPredictors :: "float64 list list \<Rightarrow> failure + float64 list" where
  "firstPredictors [] = Inr []"
| "firstPredictors (row # x) =
     (case index row 0 of
        Inl e \<Rightarrow> Inl e
      | Inr v \<Rightarrow>
         (case firstPredictors x of
            Inl e \<Rightarrow> Inl e
          | Inr xFlat \<Rightarrow> Inr (v # xFlat)))"

text \<open>
  The preview loop, \<^verbatim>\<open>for i := 0; i < len(y) && i < 10; i++\<close>, reading \<^verbatim>\<open>y[i]\<close> and
  \<^verbatim>\<open>xFlat[i]\<close>: the first argument counts the iterations left of the ten.
\<close>

fun previewPairs :: "nat \<Rightarrow> float64 list \<Rightarrow> float64 list \<Rightarrow> failure + (float64 \<times> float64) list" where
  "previewPairs 0 y xFlat = Inr []"
| "previewPairs (Suc n) [] xFlat = Inr []"
| "previewPairs (Suc n) (yi # y) [] = Inl IndexOutOfRange"
| "previewPairs (Suc n) (yi # y) (xi # xFlat) =
     (case previewPairs n y xFlat of
        Inl e \<Rightarrow> Inl e
      | Inr ps \<Rightarrow> Inr ((yi, xi) # ps))"

text \<open>
  The loop \<^verbatim>\<open>for i := range y\<close> that adds up \<open>ssTotal\<close> and \<open>ssResidual\<close>, reading
  \<^verbatim>\<open>xFlat[i]\<close>.
\<close>

fun sumsOfSquares ::
  "float64 \<Rightarrow> float64 \<Rightarrow> float64 \<Rightarrow> float64 list \<Rightarrow> float64 list \<Rightarrow> float64 \<times> float64 \<Rightarrow>
   failure + (float64 \<times> float64)" where
  "sumsOfSquares alpha beta yMean [] xFlat st = Inr st"
| "sumsOfSquares alpha beta yMean (yi # y) [] st = Inl IndexOutOfRange"
| "sumsOfSquares alpha beta yMean (yi # y) (xi # xFlat) (ssTotal, ssResidual) =
     (let predicted = fadd alpha (fmul beta xi)
      in sumsOfSquares alpha beta yMean y xFlat
           (fadd ssTotal (fmul (fsub yi yMean) (fsub yi yMean)),
            fadd ssResidual (fmul (fsub yi predicted) (fsub yi predicted))))"

definition runRegression :: "float64 list \<Rightarrow> float64 list list \<Rightarrow> failure + regressionResult" where
  "runRegression y x =
     (if length x = 0 \<or> length y = 0 \<or> length (hd x) = 0
      then Inl (Fatal ''Error: Insufficient data for regression analysis'')
      else
       (case firstPredictors x of
          Inl e \<Rightarrow> Inl e
        | Inr xRaw \<Rightarrow>
       (case normalize xRaw of
          Inl e \<Rightarrow> Inl e
        | Inr xFlat \<Rightarrow>
       (case previewPairs 10 y xFlat of
          Inl e \<Rightarrow> Inl e
        | Inr shown \<Rightarrow>
       (case LinearRegression y xFlat of
          Inl e \<Rightarrow> Inl e
        | Inr (alpha, beta) \<Rightarrow>
       (case sumsOfSquares alpha beta (Mean y) y xFlat (Fin 0, Fin 0) of
          Inl e \<Rightarrow> Inl e
        | Inr (ssTotal, ssResidual) \<Rightarrow>
            Inr \<lparr>preview = shown, intercept = alpha, slope = beta,
                 rSquared = fsub (Fin 1) (fdiv ssResidual ssTotal)\<rparr>))))))"

subsection \<open>main\<close>



section \<open>Vocabulary of the statements\<close>

text \<open>
  The distance the inner loop computes for one right row, and the distance between a
  left row and a right row: the cells read, parsed and passed to \<open>haversine\<close> exactly
  as \<open>scanRight\<close> and \<open>joinRows\<close> do.
\<close>

definition rightDistance ::
  "(string \<Rightarrow> float64 option) \<Rightarrow> float64 \<Rightarrow> float64 \<Rightarrow> int \<Rightarrow> int \<Rightarrow> row \<Rightarrow> failure + float64" where
  "rightDistance pf csvLat csvLon excelLatCol excelLonCol excelRow =
     (case index excelRow excelLatCol of
        Inl e \<Rightarrow> Inl e
      | Inr latCell \<Rightarrow>
         (case index excelRow excelLonCol of
            Inl e \<Rightarrow> Inl e
          | Inr lonCell \<Rightarrow>
              Inr (haversine csvLat csvLon (parseFloat pf latCell) (parseFloat pf lonCell))))"

definition rowDistance ::
  "(string \<Rightarrow> float64 option) \<Rightarrow> int \<Rightarrow> int \<Rightarrow> int \<Rightarrow> int \<Rightarrow> row \<Rightarrow> row \<Rightarrow> failure + float64" where
  "rowDistance pf csvLatCol csvLonCol excelLatCol excelLonCol csvRow excelRow =
     (case index csvRow csvLatCol of
        Inl e \<Rightarrow> Inl e
      | Inr latCell \<Rightarrow>
         (case index csvRow csvLonCol of
            Inl e \<Rightarrow> Inl e
          | Inr lonCell \<Rightarrow>
              rightDistance pf (parseFloat pf latCell) (parseFloat pf lonCell)
                excelLatCol excelLonCol excelRow))"

text \<open>
  A match assignment gives every left row, by position, the right row it is joined
  with or \<open>None\<close>. \<open>matchedOf\<close> and \<open>danglingOf\<close> are the two collections such an
  assignment stands for: the left rows with a partner, each followed by the partner's
  cells, and the left rows without one, unchanged, both in the order of the left rows.
\<close>

fun matchedOf :: "row list \<Rightarrow> row option list \<Rightarrow> row list" where
  "matchedOf (l # ls) (Some r # ms) = (l @ r) # matchedOf ls ms"
| "matchedOf (l # ls) (None # ms) = matchedOf ls ms"
| "matchedOf _ _ = []"

fun danglingOf :: "row list \<Rightarrow> row option list \<Rightarrow> row list" where
  "danglingOf (l # ls) (None # ms) = l # danglingOf ls ms"
| "danglingOf (l # ls) (Some r # ms) = danglingOf ls ms"
| "danglingOf _ _ = []"

section \<open>Example inputs\<close>

text \<open>
  A parser for the examples. It agrees with \<^verbatim>\<open>strconv.ParseFloat\<close> on every cell
  the example tables hold: \<open>0\<close>, \<open>1\<close>, \<open>0.01\<close>, \<open>0.02\<close> and \<open>-0.01\<close> are numbers
  (carried as the exact decimal values), the other cells are names or empty, which
  \<^verbatim>\<open>ParseFloat\<close> rejects.
\<close>

definition sampleParse :: "string \<Rightarrow> float64 option" where
  "sampleParse s =
     (if s = ''0'' then Some (Fin 0)
      else if s = ''1'' then Some (Fin 1)
      else if s = ''0.01'' then Some (Fin (1 / 100))
      else if s = ''0.02'' then Some (Fin (1 / 50))
      else if s = ''-0.01'' then Some (Fin (- (1 / 100)))
      else None)"

text \<open>
  A left table with a row at (0, 0) and a row at (0, 1), and a right table with two
  rows at (0, 1). The rows \<open>leftZeroth\<close> and \<open>rightZeroth\<close> are country rows that
  stand first in the filtered tables of the whole run.
\<close>

definition leftHeader :: row where
  "leftHeader = [''Country'', ''Id'', ''A'', ''B'', ''Latitude'', ''Longitude'']"


definition leftFirst :: row where
  "leftFirst = [''Algeria'', ''l1'', [], [], ''0'', ''0'']"

definition leftSecond :: row where
  "leftSecond = [''ALGERIA'', ''l2'', [], [], ''0'', ''1'']"


definition rightHeader :: row where
  "rightHeader = [''Country'', ''Latitude'', ''Longitude'', ''Name'']"


definition rightFirst :: row where
  "rightFirst = [''Algeria'', ''0'', ''1'', ''first'']"

definition rightSecond :: row where
  "rightSecond = [''Algeria'', ''0'', ''1'', ''second'']"

text \<open>
  Three right rows on the equator near the point (0, 0) of \<open>leftFirst\<close>: one at the
  longitude 0.02, about 2.2 km away, and two at the longitudes 0.01 and -0.01, both
  about 1.1 km away.
\<close>

definition rightTwo :: row where
  "rightTwo = [''Algeria'', ''0'', ''0.02'', ''two'']"

definition rightEast :: row where
  "rightEast = [''Algeria'', ''0'', ''0.01'', ''east'']"

definition rightWest :: row where
  "rightWest = [''Algeria'', ''0'', ''-0.01'', ''west'']"

text \<open>
  The noiseless regression input: the predictors 0 to 9, whose normalized values are
  \<open>i / 9\<close>, and the targets \<open>2 + 3 * (i / 9)\<close>.
\<close>

definition syntheticX :: "float64 list list" where
  "syntheticX =
     [[Fin 0], [Fin 1], [Fin 2], [Fin 3], [Fin 4], [Fin 5], [Fin 6], [Fin 7], [Fin 8], [Fin 9]]"

definition syntheticY :: "float64 list" where
  "syntheticY =
     [Fin 2, Fin (7 / 3), Fin (8 / 3), Fin 3, Fin (10 / 3), Fin (11 / 3), Fin 4,
      Fin (13 / 3), Fin (14 / 3), Fin 5]"

text \<open>The values \<open>normalize\<close> gives for the predictors 0 to 9.\<close>

definition syntheticNormalized :: "float64 list" where
  "syntheticNormalized =
     [Fin 0, Fin (1 / 9), Fin (2 / 9), Fin (1 / 3), Fin (4 / 9), Fin (5 / 9), Fin (2 / 3),
      Fin (7 / 9), Fin (8 / 9), Fin 1]"

section \<open>Lemmas\<close>

subsection \<open>float64 arithmetic\<close>

lemma overflowThreshold_large: "1000000 < overflowThreshold"
  by (simp add: overflowThreshold_def)

lemma mk_Fin: "\<bar>r\<bar> < overflowThreshold \<Longrightarrow> mk r = Fin r"
  by (auto simp: mk_def)

lemma mk_small: "\<bar>r\<bar> \<le> 1000000 \<Longrightarrow> mk r = Fin r"
  using overflowThreshold_large by (intro mk_Fin) linarith

lemma mk_0 [simp]: "mk 0 = Fin 0"
  by (simp add: mk_small)

lemma mk_1 [simp]: "mk 1 = Fin 1"
  by (simp add: mk_small)

lemma overflowThreshold_pos: "0 < overflowThreshold"
  by (simp add: overflowThreshold_def)

lemma fadd_NaN [simp]: "fadd a NaN = NaN" "fadd NaN a = NaN"
  by (cases a; simp)+


lemma fmul_NaN [simp]: "fmul a NaN = NaN" "fmul NaN a = NaN"
  by (cases a; simp)+


lemma foldl_fadd_NaN [simp]: "foldl fadd NaN xs = NaN"
  by (induction xs) simp_all


lemma fless_irrefl: "\<not> fless a a"
  by (cases a) auto

lemma fless_trans: "fless a b \<Longrightarrow> fless b c \<Longrightarrow> fless a c"
  by (cases a; cases b; cases c) auto

lemma fless_cases: "\<not> fless d c0 \<Longrightarrow> fless c c0 \<Longrightarrow> fless c d \<or> d = NaN"
  by (cases d; cases c0; cases c) auto

lemma fless_not_feq: "fless a b \<Longrightarrow> \<not> feq b a"
  by (cases a; cases b) auto

lemma feq_NaN: "\<not> feq NaN a"
  by (cases a) auto

lemma fless_both_ways:
  "fless a c \<Longrightarrow> fless b c' \<Longrightarrow> \<not> fless a b \<Longrightarrow> \<not> fless b a \<Longrightarrow> a = b \<and> feq a b"
  by (cases a; cases b; cases c; cases c') auto

subsection \<open>haversine\<close>

lemma degrees_in_range:
  assumes "\<bar>a\<bar> < overflowThreshold"
  shows "mk (a * (pi / 180)) = Fin (a * (pi / 180))"
proof -
  have "\<bar>a\<bar> * (pi / 180) \<le> \<bar>a\<bar> * 1"
    using pi_less_4 by (intro mult_left_mono) auto
  then have "\<bar>a * (pi / 180)\<bar> \<le> \<bar>a\<bar>"
    by (simp add: abs_mult)
  with assms show ?thesis by (intro mk_Fin) linarith
qed

lemma cos_product_bounded: "\<bar>cos x * cos y\<bar> \<le> (1::real)"
proof -
  have "\<bar>cos x\<bar> * \<bar>cos y\<bar> \<le> 1 * 1"
    by (intro mult_mono) auto
  then show ?thesis by (simp add: abs_mult)
qed

lemma mk_sin [simp]: "mk (sin x) = Fin (sin x)"
proof -
  have "\<bar>sin x\<bar> \<le> 1" by simp
  then show ?thesis by (intro mk_small) linarith
qed

lemma mk_cos [simp]: "mk (cos x) = Fin (cos x)"
proof -
  have "\<bar>cos x\<bar> \<le> 1" by simp
  then show ?thesis by (intro mk_small) linarith
qed

lemma fmul_unit_interval:
  assumes "\<bar>a\<bar> \<le> 1" "\<bar>b\<bar> \<le> 1"
  shows "fmul (Fin a) (Fin b) = Fin (a * b)"
proof -
  have "\<bar>a\<bar> * \<bar>b\<bar> \<le> 1 * 1"
    using assms by (intro mult_mono) auto
  then have "\<bar>a * b\<bar> \<le> 1000000" by (simp add: abs_mult)
  then show ?thesis by (simp add: mk_small)
qed

lemma Cos_degrees:
  assumes "\<bar>lat\<bar> < overflowThreshold"
  shows "Cos (fmul (Fin lat) (Fin (pi / 180))) = Fin (cos (lat * (pi / 180)))"
  unfolding fmul.simps degrees_in_range[OF assms] by simp

lemma haversine_self:
  assumes "\<bar>lat\<bar> < overflowThreshold"
  shows "haversine (Fin lat) (Fin lon) (Fin lat) (Fin lon) = Fin 0"
proof -
  let ?c = "cos (lat * (pi / 180))"
  have cc: "fmul (Fin ?c) (Fin ?c) = Fin (?c * ?c)"
    by (intro fmul_unit_interval) auto
  have d: "fmul (fsub (Fin r) (Fin r)) (Fin (pi / 180)) = Fin 0" for r
    by (simp add: fsub_def)
  have tail: "fmul (Fin 6371) (fmul (Fin 2) (Atan2 (Sqrt (Fin 0)) (Sqrt (fsub (Fin 1) (Fin 0))))) = Fin 0"
    by (simp add: fsub_def)
  have a: "fadd (fmul (Sin (fdiv (Fin 0) (Fin 2))) (Sin (fdiv (Fin 0) (Fin 2))))
             (fmul (fmul (Fin (?c * ?c)) (Sin (fdiv (Fin 0) (Fin 2)))) (Sin (fdiv (Fin 0) (Fin 2))))
           = Fin 0"
    by simp
  show ?thesis
    unfolding haversine_def Let_def d Cos_degrees[OF assms] cc a tail ..
qed

lemma sin_taylor:
  fixes x :: real
  shows "\<bar>sin x - (x - x ^ 3 / 6)\<bar> \<le> \<bar>x\<bar> ^ 5 / 120"
proof -
  have sum: "(\<Sum>m<5. sin_coeff m * x ^ m) = x - x ^ 3 / 6"
    by (simp add: eval_nat_numeral lessThan_Suc sin_coeff_Suc cos_coeff_Suc)
  have "fact 5 = (120::real)"
    by (simp add: eval_nat_numeral)
  then have "inverse (fact 5) * \<bar>x\<bar> ^ 5 = \<bar>x\<bar> ^ 5 / 120"
    by (simp only: divide_inverse mult.commute)
  with Maclaurin_sin_bound[of x 5] sum show ?thesis
    by (simp only:)
qed

lemma pi_upper: "pi < 3.15"
proof (rule ccontr)
  assume "\<not> pi < 3.15"
  then have le: "0.525 \<le> pi / 6" by simp
  have "sin (0.525::real) \<le> sin (pi / 6)"
    using le pi_ge_two by (intro sin_monotone_2pi_le) auto
  then have s: "sin (0.525::real) \<le> 1 / 2" by (simp add: sin_30)
  from sin_taylor[of "0.525"]
  have "sin (0.525::real) \<ge> (0.525 - 0.525 ^ 3 / 6) - \<bar>0.525\<bar> ^ 5 / 120"
    by (simp only: abs_le_iff) linarith
  moreover have "(0.525 - 0.525 ^ 3 / 6) - \<bar>0.525\<bar> ^ 5 / 120 > (1 / 2 :: real)"
    by (simp add: power_numeral_reduce)
  ultimately show False using s by linarith
qed

lemma pi_lower: "3.13 < pi"
proof (rule ccontr)
  assume "\<not> 3.13 < pi"
  then have le: "pi / 6 \<le> 0.522" by simp
  have "sin (pi / 6) \<le> sin (0.522 :: real)"
    using le pi_ge_two by (intro sin_monotone_2pi_le) auto
  then have s: "1 / 2 \<le> sin (0.522 :: real)" by (simp add: sin_30)
  from sin_taylor[of "0.522"]
  have "sin (0.522::real) \<le> (0.522 - 0.522 ^ 3 / 6) + \<bar>0.522\<bar> ^ 5 / 120"
    by (simp only: abs_le_iff) linarith
  moreover have "(0.522 - 0.522 ^ 3 / 6) + \<bar>0.522\<bar> ^ 5 / 120 < (1 / 2 :: real)"
    by (simp add: power_numeral_reduce)
  ultimately show False using s by linarith
qed

lemma haversine_one_degree:
  "haversine (Fin 0) (Fin 0) (Fin 0) (Fin 1) = Fin (6371 * pi / 180)"
proof -
  let ?t = "pi / 360"
  have t: "0 < ?t" "?t < pi / 2" by simp_all
  have s: "0 < sin ?t" using t by (intro sin_gt_zero2) auto
  have c: "0 < cos ?t" using t by (intro cos_gt_zero) auto
  have dLon: "fdiv (fmul (fsub (Fin 1) (Fin 0)) (Fin (pi / 180))) (Fin 2) = Fin ?t"
    using pi_less_4 by (simp add: fsub_def mk_small)
  have dLat: "fdiv (fmul (fsub (Fin 0) (Fin 0)) (Fin (pi / 180))) (Fin 2) = Fin 0"
    by (simp add: fsub_def)
  have lat: "fmul (Fin 0) (Fin (pi / 180)) = Fin 0" by simp
  have ss: "fmul (Fin (sin ?t)) (Fin (sin ?t)) = Fin ((sin ?t)\<^sup>2)"
    unfolding power2_eq_square by (intro fmul_unit_interval) auto
  have "\<bar>sin ?t\<bar> * \<bar>sin ?t\<bar> \<le> 1 * 1"
    by (intro mult_mono) auto
  then have sq: "\<bar>(sin ?t)\<^sup>2\<bar> \<le> 1000000"
    by (simp add: power2_eq_square abs_mult)
  have z: "fmul (Sin (Fin 0)) (Sin (Fin 0)) = Fin 0"
    by simp
  have m1: "fmul (fmul (Cos (Fin 0)) (Cos (Fin 0))) (Sin (Fin ?t)) = Fin (sin ?t)"
    by simp
  have m2: "fmul (fmul (fmul (Cos (Fin 0)) (Cos (Fin 0))) (Sin (Fin ?t))) (Sin (Fin ?t))
      = Fin ((sin ?t)\<^sup>2)"
    unfolding m1 unfolding Sin.simps by (rule ss)
  have a: "fadd (fmul (Sin (Fin 0)) (Sin (Fin 0)))
             (fmul (fmul (fmul (Cos (Fin 0)) (Cos (Fin 0))) (Sin (Fin ?t))) (Sin (Fin ?t)))
           = Fin ((sin ?t)\<^sup>2)"
    unfolding z m2 using sq by (simp add: mk_small)
  have one_minus: "fsub (Fin 1) (Fin ((sin ?t)\<^sup>2)) = Fin ((cos ?t)\<^sup>2)"
  proof -
    have "1 - (sin ?t)\<^sup>2 = (cos ?t)\<^sup>2"
      using sin_cos_squared_add[of ?t] by linarith
    moreover have "\<bar>(cos ?t)\<^sup>2\<bar> \<le> 1000000"
      using cos_product_bounded[of ?t ?t] by (simp add: power2_eq_square)
    ultimately show ?thesis by (simp add: fsub_def mk_small)
  qed
  have at: "Atan2 (Sqrt (Fin ((sin ?t)\<^sup>2))) (Sqrt (Fin ((cos ?t)\<^sup>2))) = Fin ?t"
  proof -
    have "arctan (sin ?t / cos ?t) = ?t"
      using arctan_tan[of ?t] t by (simp add: tan_def)
    with s c show ?thesis by simp
  qed
  have fin: "fmul (Fin 6371) (fmul (Fin 2) (Fin ?t)) = Fin (6371 * pi / 180)"
    using pi_less_4 by (simp add: mk_small)
  show ?thesis
    unfolding haversine_def Let_def dLon dLat lat a one_minus at fin ..
qed

lemma one_degree_km: "\<bar>6371 * pi / 180 - 111.19\<bar> \<le> (0.5::real)"
proof -
  have "pi < 315 / 100" "313 / 100 < pi"
    using pi_upper pi_lower by simp_all
  then have "- (1 / 2) \<le> 6371 * pi / 180 - 11119 / 100" "6371 * pi / 180 - 11119 / 100 \<le> 1 / 2"
    by linarith+
  then have "\<bar>6371 * pi / 180 - 11119 / 100\<bar> \<le> 1 / 2"
    by (rule_tac abs_leI) linarith+
  then show ?thesis by simp
qed

lemma haversine_equator:
  assumes "\<bar>t\<bar> < 180"
  shows "haversine (Fin 0) (Fin 0) (Fin 0) (Fin t) = Fin (6371 * (\<bar>t\<bar> * pi / 180))"
proof -
  let ?h = "t * (pi / 180) / 2"
  have tp: "\<bar>t * (pi / 180)\<bar> \<le> 1000000"
  proof -
    have "\<bar>t\<bar> * (pi / 180) \<le> 180 * (pi / 180)"
      using assms by (intro mult_right_mono) auto
    then have "\<bar>t * (pi / 180)\<bar> \<le> pi" by (simp add: abs_mult)
    with pi_less_4 show ?thesis by linarith
  qed
  have habs: "\<bar>?h\<bar> < pi / 2"
  proof -
    have "\<bar>t\<bar> * (pi / 180) < 180 * (pi / 180)"
      using assms by (intro mult_strict_right_mono) auto
    then have "\<bar>t * (pi / 180)\<bar> < pi" by (simp add: abs_mult)
    then show ?thesis by simp
  qed
  then have hb: "- (pi / 2) < ?h" "?h < pi / 2" by (simp_all add: abs_less_iff)
  have c: "0 < cos ?h" using hb by (intro cos_gt_zero_pi) auto
  have t0: "fsub (Fin t) (Fin 0) = Fin t"
    using assms overflowThreshold_large by (simp add: fsub_def mk_Fin)
  have dLon: "fdiv (fmul (fsub (Fin t) (Fin 0)) (Fin (pi / 180))) (Fin 2) = Fin ?h"
  proof -
    have "\<bar>?h\<bar> \<le> 1000000" using habs pi_less_4 by linarith
    then show ?thesis
      unfolding t0 using tp by (simp add: mk_small)
  qed
  have dLat: "fdiv (fmul (fsub (Fin 0) (Fin 0)) (Fin (pi / 180))) (Fin 2) = Fin 0"
    by (simp add: fsub_def)
  have lat: "fmul (Fin 0) (Fin (pi / 180)) = Fin 0" by simp
  have ss: "fmul (Fin (sin ?h)) (Fin (sin ?h)) = Fin ((sin ?h)\<^sup>2)"
    unfolding power2_eq_square by (intro fmul_unit_interval) auto
  have "\<bar>sin ?h\<bar> * \<bar>sin ?h\<bar> \<le> 1 * 1"
    by (intro mult_mono) auto
  then have sq: "\<bar>(sin ?h)\<^sup>2\<bar> \<le> 1000000"
    by (simp add: power2_eq_square abs_mult)
  have z: "fmul (Sin (Fin 0)) (Sin (Fin 0)) = Fin 0"
    by simp
  have m1: "fmul (fmul (Cos (Fin 0)) (Cos (Fin 0))) (Sin (Fin ?h)) = Fin (sin ?h)"
    by simp
  have m2: "fmul (fmul (fmul (Cos (Fin 0)) (Cos (Fin 0))) (Sin (Fin ?h))) (Sin (Fin ?h))
      = Fin ((sin ?h)\<^sup>2)"
    unfolding m1 unfolding Sin.simps by (rule ss)
  have a: "fadd (fmul (Sin (Fin 0)) (Sin (Fin 0)))
             (fmul (fmul (fmul (Cos (Fin 0)) (Cos (Fin 0))) (Sin (Fin ?h))) (Sin (Fin ?h)))
           = Fin ((sin ?h)\<^sup>2)"
    unfolding z m2 using sq by (simp add: mk_small)
  have one_minus: "fsub (Fin 1) (Fin ((sin ?h)\<^sup>2)) = Fin ((cos ?h)\<^sup>2)"
  proof -
    have "1 - (sin ?h)\<^sup>2 = (cos ?h)\<^sup>2"
      using sin_cos_squared_add[of ?h] by linarith
    moreover have "\<bar>(cos ?h)\<^sup>2\<bar> \<le> 1000000"
      using cos_product_bounded[of ?h ?h] by (simp add: power2_eq_square)
    ultimately show ?thesis by (simp add: fsub_def mk_small)
  qed
  have at: "Atan2 (Sqrt (Fin ((sin ?h)\<^sup>2))) (Sqrt (Fin ((cos ?h)\<^sup>2))) = Fin \<bar>?h\<bar>"
  proof -
    have ah: "- (pi / 2) < \<bar>?h\<bar>" "\<bar>?h\<bar> < pi / 2" using habs by linarith+
    have "\<bar>sin ?h\<bar> = sin \<bar>?h\<bar>"
    proof (cases "0 \<le> ?h")
      case True
      with hb have "0 \<le> sin ?h" by (intro sin_ge_zero) linarith+
      with True show ?thesis by (simp only: abs_of_nonneg)
    next
      case False
      with hb have "0 \<le> sin (- ?h)" by (intro sin_ge_zero) linarith+
      then have "sin ?h \<le> 0" by (simp only: sin_minus)
      moreover from False have "\<bar>?h\<bar> = - ?h" by linarith
      ultimately show ?thesis by (simp only: abs_of_nonpos sin_minus)
    qed
    moreover have "cos ?h = cos \<bar>?h\<bar>"
      by (simp only: cos_abs_real)
    ultimately have "\<bar>sin ?h\<bar> / cos ?h = tan \<bar>?h\<bar>" by (simp add: tan_def)
    then have "arctan (\<bar>sin ?h\<bar> / cos ?h) = \<bar>?h\<bar>"
      using arctan_tan[OF ah] by simp
    with c show ?thesis by simp
  qed
  have fin: "fmul (Fin 6371) (fmul (Fin 2) (Fin \<bar>?h\<bar>)) = Fin (6371 * (\<bar>t\<bar> * pi / 180))"
  proof -
    have e: "2 * \<bar>?h\<bar> = \<bar>t\<bar> * pi / 180" by (simp add: abs_mult)
    have "0 \<le> \<bar>?h\<bar>" "\<bar>?h\<bar> < 2"
      using habs pi_less_4 by linarith+
    then have b: "\<bar>2 * \<bar>?h\<bar>\<bar> \<le> 1000000" "\<bar>6371 * (2 * \<bar>?h\<bar>)\<bar> \<le> 1000000"
      by linarith+
    have s1: "fmul (Fin 2) (Fin \<bar>?h\<bar>) = Fin (2 * \<bar>?h\<bar>)"
      unfolding fmul.simps by (rule mk_small[OF b(1)])
    have s2: "fmul (Fin 6371) (Fin (2 * \<bar>?h\<bar>)) = Fin (6371 * (2 * \<bar>?h\<bar>))"
      unfolding fmul.simps by (rule mk_small[OF b(2)])
    show ?thesis
      unfolding s1 s2 by (simp only: e)
  qed
  show ?thesis
    unfolding haversine_def Let_def dLon dLat lat a one_minus at fin ..
qed

subsection \<open>The join\<close>

lemma scanRight_step:
  "rightDistance pf la lo c d r = Inr ds \<Longrightarrow>
   scanRight pf la lo c d (r # rest) (cd0, bm0) =
     scanRight pf la lo c d rest (if fless ds cd0 then (ds, Some r) else (cd0, bm0))"
  by (auto simp: rightDistance_def split: sum.splits)

lemma scanRight_fail:
  "rightDistance pf la lo c d r = Inl e \<Longrightarrow> scanRight pf la lo c d (r # rest) (cd0, bm0) = Inl e"
  by (auto simp: rightDistance_def split: sum.splits)

lemma scanRight_sound:
  "scanRight pf la lo c d rows (cd0, bm0) = Inr (cd, bm) \<Longrightarrow>
   (\<forall>r\<in>set rows. \<exists>ds. rightDistance pf la lo c d r = Inr ds) \<and>
   ((cd = cd0 \<and> bm = bm0 \<and>
     (\<forall>r\<in>set rows. \<forall>ds. rightDistance pf la lo c d r = Inr ds \<longrightarrow> \<not> fless ds cd0)) \<or>
    (\<exists>j<length rows. bm = Some (rows ! j) \<and> rightDistance pf la lo c d (rows ! j) = Inr cd \<and>
        fless cd cd0 \<and>
        (\<forall>k<j. \<forall>dk. rightDistance pf la lo c d (rows ! k) = Inr dk \<longrightarrow> fless cd dk \<or> dk = NaN) \<and>
        (\<forall>k<length rows. \<forall>dk. rightDistance pf la lo c d (rows ! k) = Inr dk \<longrightarrow> \<not> fless dk cd)))"
proof (induction rows arbitrary: cd0 bm0)
  case Nil
  then show ?case by simp
next
  case (Cons r rest)
  show ?case
  proof (cases "rightDistance pf la lo c d r")
    case (Inl e)
    from Cons.prems show ?thesis unfolding scanRight_fail[OF Inl] by simp
  next
    case (Inr ds)
    let ?D = "rightDistance pf la lo c d"
    show ?thesis
    proof (cases "fless ds cd0")
      case True
      from Cons.prems have run: "scanRight pf la lo c d rest (ds, Some r) = Inr (cd, bm)"
        unfolding scanRight_step[OF Inr] using True by simp
      from Cons.IH[OF run] have all: "\<forall>r\<in>set rest. \<exists>ds. ?D r = Inr ds"
        and alt: "(cd = ds \<and> bm = Some r \<and>
           (\<forall>r\<in>set rest. \<forall>ds'. ?D r = Inr ds' \<longrightarrow> \<not> fless ds' ds)) \<or>
          (\<exists>j<length rest. bm = Some (rest ! j) \<and> ?D (rest ! j) = Inr cd \<and> fless cd ds \<and>
            (\<forall>k<j. \<forall>dk. ?D (rest ! k) = Inr dk \<longrightarrow> fless cd dk \<or> dk = NaN) \<and>
            (\<forall>k<length rest. \<forall>dk. ?D (rest ! k) = Inr dk \<longrightarrow> \<not> fless dk cd))"
        by blast+
      have first: "\<forall>r'\<in>set (r # rest). \<exists>ds. ?D r' = Inr ds"
        using all Inr by simp
      from alt have "\<exists>j<length (r # rest). bm = Some ((r # rest) ! j) \<and> ?D ((r # rest) ! j) = Inr cd \<and>
        fless cd cd0 \<and>
        (\<forall>k<j. \<forall>dk. ?D ((r # rest) ! k) = Inr dk \<longrightarrow> fless cd dk \<or> dk = NaN) \<and>
        (\<forall>k<length (r # rest). \<forall>dk. ?D ((r # rest) ! k) = Inr dk \<longrightarrow> \<not> fless dk cd)"
      proof
        assume a: "cd = ds \<and> bm = Some r \<and>
           (\<forall>r\<in>set rest. \<forall>ds'. ?D r = Inr ds' \<longrightarrow> \<not> fless ds' ds)"
        have "\<forall>k<length (r # rest). \<forall>dk. ?D ((r # rest) ! k) = Inr dk \<longrightarrow> \<not> fless dk cd"
        proof (intro allI impI)
          fix k dk assume k: "k < length (r # rest)" and dk: "?D ((r # rest) ! k) = Inr dk"
          show "\<not> fless dk cd"
          proof (cases k)
            case 0
            with dk Inr a show ?thesis by (simp add: fless_irrefl)
          next
            case (Suc k')
            with k dk a show ?thesis by auto
          qed
        qed
        with a Inr True show ?thesis by (intro exI[of _ 0]) simp
      next
        assume "\<exists>j<length rest. bm = Some (rest ! j) \<and> ?D (rest ! j) = Inr cd \<and> fless cd ds \<and>
            (\<forall>k<j. \<forall>dk. ?D (rest ! k) = Inr dk \<longrightarrow> fless cd dk \<or> dk = NaN) \<and>
            (\<forall>k<length rest. \<forall>dk. ?D (rest ! k) = Inr dk \<longrightarrow> \<not> fless dk cd)"
        then obtain j where j: "j < length rest" "bm = Some (rest ! j)" "?D (rest ! j) = Inr cd"
          "fless cd ds"
          and before: "\<forall>k<j. \<forall>dk. ?D (rest ! k) = Inr dk \<longrightarrow> fless cd dk \<or> dk = NaN"
          and least: "\<forall>k<length rest. \<forall>dk. ?D (rest ! k) = Inr dk \<longrightarrow> \<not> fless dk cd"
          by blast
        have b': "\<forall>k<Suc j. \<forall>dk. ?D ((r # rest) ! k) = Inr dk \<longrightarrow> fless cd dk \<or> dk = NaN"
        proof (intro allI impI)
          fix k dk assume k: "k < Suc j" and dk: "?D ((r # rest) ! k) = Inr dk"
          show "fless cd dk \<or> dk = NaN"
          proof (cases k)
            case 0
            with dk Inr j show ?thesis by simp
          next
            case (Suc k')
            with k dk before show ?thesis by auto
          qed
        qed
        have l': "\<forall>k<length (r # rest). \<forall>dk. ?D ((r # rest) ! k) = Inr dk \<longrightarrow> \<not> fless dk cd"
        proof (intro allI impI)
          fix k dk assume k: "k < length (r # rest)" and dk: "?D ((r # rest) ! k) = Inr dk"
          show "\<not> fless dk cd"
          proof (cases k)
            case 0
            with dk Inr have "dk = ds" by simp
            with j(4) show ?thesis using fless_trans fless_irrefl by blast
          next
            case (Suc k')
            with k dk least show ?thesis by auto
          qed
        qed
        from j True have "fless cd cd0" using fless_trans by blast
        with j b' l' show ?thesis by (intro exI[of _ "Suc j"]) simp
      qed
      with first show ?thesis by blast
    next
      case False
      from Cons.prems have run: "scanRight pf la lo c d rest (cd0, bm0) = Inr (cd, bm)"
        unfolding scanRight_step[OF Inr] using False by simp
      from Cons.IH[OF run] have all: "\<forall>r\<in>set rest. \<exists>ds. ?D r = Inr ds"
        and alt: "(cd = cd0 \<and> bm = bm0 \<and>
           (\<forall>r\<in>set rest. \<forall>ds'. ?D r = Inr ds' \<longrightarrow> \<not> fless ds' cd0)) \<or>
          (\<exists>j<length rest. bm = Some (rest ! j) \<and> ?D (rest ! j) = Inr cd \<and> fless cd cd0 \<and>
            (\<forall>k<j. \<forall>dk. ?D (rest ! k) = Inr dk \<longrightarrow> fless cd dk \<or> dk = NaN) \<and>
            (\<forall>k<length rest. \<forall>dk. ?D (rest ! k) = Inr dk \<longrightarrow> \<not> fless dk cd))"
        by blast+
      have first: "\<forall>r'\<in>set (r # rest). \<exists>ds. ?D r' = Inr ds"
        using all Inr by simp
      from alt show ?thesis
      proof
        assume a: "cd = cd0 \<and> bm = bm0 \<and>
           (\<forall>r\<in>set rest. \<forall>ds'. ?D r = Inr ds' \<longrightarrow> \<not> fless ds' cd0)"
        with Inr False first show ?thesis by auto
      next
        assume "\<exists>j<length rest. bm = Some (rest ! j) \<and> ?D (rest ! j) = Inr cd \<and> fless cd cd0 \<and>
            (\<forall>k<j. \<forall>dk. ?D (rest ! k) = Inr dk \<longrightarrow> fless cd dk \<or> dk = NaN) \<and>
            (\<forall>k<length rest. \<forall>dk. ?D (rest ! k) = Inr dk \<longrightarrow> \<not> fless dk cd)"
        then obtain j where j: "j < length rest" "bm = Some (rest ! j)" "?D (rest ! j) = Inr cd"
          "fless cd cd0"
          and before: "\<forall>k<j. \<forall>dk. ?D (rest ! k) = Inr dk \<longrightarrow> fless cd dk \<or> dk = NaN"
          and least: "\<forall>k<length rest. \<forall>dk. ?D (rest ! k) = Inr dk \<longrightarrow> \<not> fless dk cd"
          by blast
        have b': "\<forall>k<Suc j. \<forall>dk. ?D ((r # rest) ! k) = Inr dk \<longrightarrow> fless cd dk \<or> dk = NaN"
        proof (intro allI impI)
          fix k dk assume k: "k < Suc j" and dk: "?D ((r # rest) ! k) = Inr dk"
          show "fless cd dk \<or> dk = NaN"
          proof (cases k)
            case 0
            with dk Inr have "dk = ds" by simp
            with False j(4) show ?thesis using fless_cases by blast
          next
            case (Suc k')
            with k dk before show ?thesis by auto
          qed
        qed
        have l': "\<forall>k<length (r # rest). \<forall>dk. ?D ((r # rest) ! k) = Inr dk \<longrightarrow> \<not> fless dk cd"
        proof (intro allI impI)
          fix k dk assume k: "k < length (r # rest)" and dk: "?D ((r # rest) ! k) = Inr dk"
          show "\<not> fless dk cd"
          proof (cases k)
            case 0
            with dk Inr have "dk = ds" by simp
            with False j(4) show ?thesis using fless_trans by blast
          next
            case (Suc k')
            with k dk least show ?thesis by auto
          qed
        qed
        from j b' l' have "\<exists>j<length (r # rest). bm = Some ((r # rest) ! j) \<and> ?D ((r # rest) ! j) = Inr cd \<and>
          fless cd cd0 \<and>
          (\<forall>k<j. \<forall>dk. ?D ((r # rest) ! k) = Inr dk \<longrightarrow> fless cd dk \<or> dk = NaN) \<and>
          (\<forall>k<length (r # rest). \<forall>dk. ?D ((r # rest) ! k) = Inr dk \<longrightarrow> \<not> fless dk cd)"
          by (intro exI[of _ "Suc j"]) simp
        with first show ?thesis by blast
      qed
    qed
  qed
qed


lemma scanRight_match:
  assumes "scanRight pf la lo c d rows (Fin 3, None) = Inr (cd, Some r)"
  shows "\<exists>j<length rows. r = rows ! j \<and> rightDistance pf la lo c d (rows ! j) = Inr cd \<and>
        fless cd (Fin 3) \<and>
        (\<forall>k<j. \<forall>dk. rightDistance pf la lo c d (rows ! k) = Inr dk \<longrightarrow> fless cd dk \<or> dk = NaN) \<and>
        (\<forall>k<length rows. \<forall>dk. rightDistance pf la lo c d (rows ! k) = Inr dk \<longrightarrow> \<not> fless dk cd)"
  using scanRight_sound[OF assms] by auto

lemma joinRows_sound:
  "joinRows pf a b c d ls xl (j0, d0) = Inr (joined, dangling) \<Longrightarrow>
   \<exists>ms. length ms = length ls \<and> joined = j0 @ matchedOf ls ms \<and>
        dangling = d0 @ danglingOf ls ms \<and>
        (\<forall>i<length ls. \<exists>latCell lonCell cd.
            index (ls ! i) a = Inr latCell \<and> index (ls ! i) b = Inr lonCell \<and>
            scanRight pf (parseFloat pf latCell) (parseFloat pf lonCell) c d (tl xl) (Fin 3, None)
              = Inr (cd, ms ! i))"
proof (induction ls arbitrary: j0 d0)
  case Nil
  then show ?case by simp
next
  case (Cons l ls)
  from Cons.prems obtain latCell lonCell xr cd bm where
    lat: "index l a = Inr latCell" and lon: "index l b = Inr lonCell" and
    xr: "sliceFrom1 xl = Inr xr" and
    sc: "scanRight pf (parseFloat pf latCell) (parseFloat pf lonCell) c d xr (Fin 3, None) = Inr (cd, bm)"
    by (auto split: sum.splits)
  from xr have tl: "tl xl = xr" by (cases xl) auto
  show ?case
  proof (cases bm)
    case None
    with Cons.prems lat lon xr sc
    have "joinRows pf a b c d ls xl (j0, d0 @ [l]) = Inr (joined, dangling)" by simp
    from Cons.IH[OF this] obtain ms where ms: "length ms = length ls"
      "joined = j0 @ matchedOf ls ms" "dangling = (d0 @ [l]) @ danglingOf ls ms"
      "\<forall>i<length ls. \<exists>latCell lonCell cd.
            index (ls ! i) a = Inr latCell \<and> index (ls ! i) b = Inr lonCell \<and>
            scanRight pf (parseFloat pf latCell) (parseFloat pf lonCell) c d (tl xl) (Fin 3, None)
              = Inr (cd, ms ! i)"
      by blast
    have "\<forall>i<length (l # ls). \<exists>latCell lonCell cd.
            index ((l # ls) ! i) a = Inr latCell \<and> index ((l # ls) ! i) b = Inr lonCell \<and>
            scanRight pf (parseFloat pf latCell) (parseFloat pf lonCell) c d (tl xl) (Fin 3, None)
              = Inr (cd, (None # ms) ! i)"
    proof (intro allI impI)
      fix i assume "i < length (l # ls)"
      then show "\<exists>latCell lonCell cd.
            index ((l # ls) ! i) a = Inr latCell \<and> index ((l # ls) ! i) b = Inr lonCell \<and>
            scanRight pf (parseFloat pf latCell) (parseFloat pf lonCell) c d (tl xl) (Fin 3, None)
              = Inr (cd, (None # ms) ! i)"
        using lat lon sc tl None ms(4) by (cases i) auto
    qed
    with ms show ?thesis by (intro exI[of _ "None # ms"]) simp
  next
    case (Some m)
    with Cons.prems lat lon xr sc
    have "joinRows pf a b c d ls xl (j0 @ [l @ m], d0) = Inr (joined, dangling)" by simp
    from Cons.IH[OF this] obtain ms where ms: "length ms = length ls"
      "joined = (j0 @ [l @ m]) @ matchedOf ls ms" "dangling = d0 @ danglingOf ls ms"
      "\<forall>i<length ls. \<exists>latCell lonCell cd.
            index (ls ! i) a = Inr latCell \<and> index (ls ! i) b = Inr lonCell \<and>
            scanRight pf (parseFloat pf latCell) (parseFloat pf lonCell) c d (tl xl) (Fin 3, None)
              = Inr (cd, ms ! i)"
      by blast
    have "\<forall>i<length (l # ls). \<exists>latCell lonCell cd.
            index ((l # ls) ! i) a = Inr latCell \<and> index ((l # ls) ! i) b = Inr lonCell \<and>
            scanRight pf (parseFloat pf latCell) (parseFloat pf lonCell) c d (tl xl) (Fin 3, None)
              = Inr (cd, (Some m # ms) ! i)"
    proof (intro allI impI)
      fix i assume "i < length (l # ls)"
      then show "\<exists>latCell lonCell cd.
            index ((l # ls) ! i) a = Inr latCell \<and> index ((l # ls) ! i) b = Inr lonCell \<and>
            scanRight pf (parseFloat pf latCell) (parseFloat pf lonCell) c d (tl xl) (Fin 3, None)
              = Inr (cd, (Some m # ms) ! i)"
        using lat lon sc tl Some ms(4) by (cases i) auto
    qed
    with ms show ?thesis by (intro exI[of _ "Some m # ms"]) simp
  qed
qed

lemma joinDatasets_sound:
  assumes "joinDatasets pf csvData excelData a b c d = Inr (joined, dangling)"
  shows "\<exists>ms. length ms = length (tl csvData) \<and> joined = matchedOf (tl csvData) ms \<and>
        dangling = danglingOf (tl csvData) ms \<and>
        (\<forall>i<length (tl csvData). \<exists>latCell lonCell cd.
            index (tl csvData ! i) a = Inr latCell \<and> index (tl csvData ! i) b = Inr lonCell \<and>
            scanRight pf (parseFloat pf latCell) (parseFloat pf lonCell) c d (tl excelData)
              (Fin 3, None) = Inr (cd, ms ! i))"
proof -
  from assms obtain h ls where csv: "csvData = h # ls"
    by (cases csvData) (auto simp: joinDatasets_def)
  with assms have "joinRows pf a b c d ls excelData ([], []) = Inr (joined, dangling)"
    by (simp add: joinDatasets_def)
  from joinRows_sound[OF this] csv show ?thesis by simp
qed

lemma partition_lengths:
  "length ms = length ls \<Longrightarrow> length (matchedOf ls ms) + length (danglingOf ls ms) = length ls"
proof (induction ls ms rule: list_induct2')
  case (4 l ls m ms)
  then show ?case by (cases m) auto
qed simp_all

lemma danglingOf_subset: "set (danglingOf ls ms) \<subseteq> set ls"
proof (induction ls ms rule: list_induct2')
  case (4 l ls m ms)
  then show ?case by (cases m) auto
qed simp_all

lemma matchedOf_rows:
  "jr \<in> set (matchedOf ls ms) \<Longrightarrow> \<exists>i<length ls. i < length ms \<and> (\<exists>r. ms ! i = Some r \<and> jr = ls ! i @ r)"
proof (induction ls ms rule: list_induct2')
  case (4 l ls m ms)
  show ?case
  proof (cases m)
    case None
    with 4 obtain i r where "i < length ls" "i < length ms" "ms ! i = Some r" "jr = ls ! i @ r"
      by auto
    then show ?thesis by (intro exI[of _ "Suc i"]) auto
  next
    case (Some r0)
    show ?thesis
    proof (cases "jr = l @ r0")
      case True
      with Some show ?thesis by (intro exI[of _ 0]) auto
    next
      case False
      with 4 Some obtain i r where "i < length ls" "i < length ms" "ms ! i = Some r" "jr = ls ! i @ r"
        by auto
      then show ?thesis by (intro exI[of _ "Suc i"]) auto
    qed
  qed
qed simp_all

lemma scanRight_returns:
  "\<forall>r\<in>set rows. 0 \<le> c \<and> c < int (length r) \<and> 0 \<le> d \<and> d < int (length r) \<Longrightarrow>
   \<exists>cd bm. scanRight pf la lo c d rows st = Inr (cd, bm)"
proof (induction rows arbitrary: st)
  case Nil
  then show ?case by (cases st) simp
next
  case (Cons r rows)
  obtain cd0 bm0 where st: "st = (cd0, bm0)" by (cases st)
  from Cons.prems have "\<forall>r\<in>set rows. 0 \<le> c \<and> c < int (length r) \<and> 0 \<le> d \<and> d < int (length r)"
    by simp
  from Cons.IH[OF this] Cons.prems show ?case
    by (simp add: st index_def Let_def)
qed

lemma joinRows_returns:
  assumes right: "\<forall>r\<in>set (tl excelData). 0 \<le> c \<and> c < int (length r) \<and> 0 \<le> d \<and> d < int (length r)"
    and ne: "excelData \<noteq> []"
  shows "\<forall>l\<in>set ls. 0 \<le> a \<and> a < int (length l) \<and> 0 \<le> b \<and> b < int (length l) \<Longrightarrow>
   \<exists>joined dangling. joinRows pf a b c d ls excelData st = Inr (joined, dangling)"
proof (induction ls arbitrary: st)
  case Nil
  then show ?case by (cases st) simp
next
  case (Cons l ls)
  obtain j0 d0 where st: "st = (j0, d0)" by (cases st)
  from ne obtain h rows where xl: "excelData = h # rows" by (cases excelData) auto
  from Cons.prems obtain latCell lonCell where
    cells: "index l a = Inr latCell" "index l b = Inr lonCell"
    by (simp add: index_def)
  from scanRight_returns[of rows c d pf "parseFloat pf latCell" "parseFloat pf lonCell" "(Fin 3, None)"]
    right xl obtain cd bm where
    sc: "scanRight pf (parseFloat pf latCell) (parseFloat pf lonCell) c d rows (Fin 3, None) = Inr (cd, bm)"
    by auto
  from Cons.prems have rest: "\<forall>l\<in>set ls. 0 \<le> a \<and> a < int (length l) \<and> 0 \<le> b \<and> b < int (length l)"
    by simp
  show ?case
    using Cons.IH[OF rest] cells sc
    by (cases bm) (simp_all add: st xl)
qed

lemma joinDatasets_returns:
  assumes "csvData \<noteq> []" "excelData \<noteq> []"
    and "\<forall>l\<in>set (tl csvData). 0 \<le> a \<and> a < int (length l) \<and> 0 \<le> b \<and> b < int (length l)"
    and "\<forall>r\<in>set (tl excelData). 0 \<le> c \<and> c < int (length r) \<and> 0 \<le> d \<and> d < int (length r)"
  shows "\<exists>joined dangling. joinDatasets pf csvData excelData a b c d = Inr (joined, dangling)"
proof -
  from assms(1) obtain h ls where csv: "csvData = h # ls" by (cases csvData) auto
  with joinRows_returns[OF assms(4) assms(2), of ls a b pf "([], [])"] assms(3)
  show ?thesis by (simp add: joinDatasets_def)
qed

lemma rowDistance_right:
  "index l a = Inr latCell \<Longrightarrow> index l b = Inr lonCell \<Longrightarrow>
   rowDistance pf a b c d l r = rightDistance pf (parseFloat pf latCell) (parseFloat pf lonCell) c d r"
  by (simp add: rowDistance_def)

lemma joinDatasets_matches:
  assumes "joinDatasets pf csvData excelData a b c d = Inr (joined, dangling)"
  shows "\<exists>ms. length ms = length (tl csvData) \<and> joined = matchedOf (tl csvData) ms \<and>
     dangling = danglingOf (tl csvData) ms \<and>
     (\<forall>i<length ms. \<forall>r. ms ! i = Some r \<longrightarrow>
        (\<exists>j<length (tl excelData). r = tl excelData ! j \<and>
          (\<exists>ds. rowDistance pf a b c d (tl csvData ! i) (tl excelData ! j) = Inr ds \<and>
             fless ds (Fin 3) \<and>
             (\<forall>k<j. \<forall>dk. rowDistance pf a b c d (tl csvData ! i) (tl excelData ! k) = Inr dk \<longrightarrow>
                   fless ds dk \<or> dk = NaN) \<and>
             (\<forall>k<length (tl excelData).
                 \<exists>dk. rowDistance pf a b c d (tl csvData ! i) (tl excelData ! k) = Inr dk \<and>
                      \<not> fless dk ds))))"
proof -
  let ?L = "tl csvData" and ?R = "tl excelData"
  from joinDatasets_sound[OF assms] obtain ms where ms: "length ms = length ?L"
    "joined = matchedOf ?L ms" "dangling = danglingOf ?L ms"
    and scans: "\<forall>i<length ?L. \<exists>latCell lonCell cd.
            index (?L ! i) a = Inr latCell \<and> index (?L ! i) b = Inr lonCell \<and>
            scanRight pf (parseFloat pf latCell) (parseFloat pf lonCell) c d ?R (Fin 3, None)
              = Inr (cd, ms ! i)"
    by blast
  have "\<exists>j<length ?R. r = ?R ! j \<and>
          (\<exists>ds. rowDistance pf a b c d (?L ! i) (?R ! j) = Inr ds \<and> fless ds (Fin 3) \<and>
             (\<forall>k<j. \<forall>dk. rowDistance pf a b c d (?L ! i) (?R ! k) = Inr dk \<longrightarrow>
                   fless ds dk \<or> dk = NaN) \<and>
             (\<forall>k<length ?R. \<exists>dk. rowDistance pf a b c d (?L ! i) (?R ! k) = Inr dk \<and>
                      \<not> fless dk ds))"
    if i: "i < length ms" and r: "ms ! i = Some r" for i r
  proof -
    from scans i ms(1) r obtain latCell lonCell cd where
      cells: "index (?L ! i) a = Inr latCell" "index (?L ! i) b = Inr lonCell" and
      sc: "scanRight pf (parseFloat pf latCell) (parseFloat pf lonCell) c d ?R (Fin 3, None)
              = Inr (cd, Some r)"
      by force
    let ?D = "rightDistance pf (parseFloat pf latCell) (parseFloat pf lonCell) c d"
    have rd: "rowDistance pf a b c d (?L ! i) r' = ?D r'" for r'
      by (rule rowDistance_right[OF cells])
    from scanRight_match[OF sc] obtain j where j: "j < length ?R" "r = ?R ! j"
      "?D (?R ! j) = Inr cd" "fless cd (Fin 3)"
      and before: "\<forall>k<j. \<forall>dk. ?D (?R ! k) = Inr dk \<longrightarrow> fless cd dk \<or> dk = NaN"
      and least: "\<forall>k<length ?R. \<forall>dk. ?D (?R ! k) = Inr dk \<longrightarrow> \<not> fless dk cd"
      by blast
    from scanRight_sound[OF sc] have all: "\<forall>r'\<in>set ?R. \<exists>ds. ?D r' = Inr ds"
      by blast
    have least': "\<forall>k<length ?R. \<exists>dk. ?D (?R ! k) = Inr dk \<and> \<not> fless dk cd"
    proof (intro allI impI)
      fix k assume k: "k < length ?R"
      then have "?R ! k \<in> set ?R" by simp
      with all obtain dk where "?D (?R ! k) = Inr dk" by blast
      with least k show "\<exists>dk. ?D (?R ! k) = Inr dk \<and> \<not> fless dk cd" by blast
    qed
    show ?thesis
      unfolding rd using j before least' by blast
  qed
  with ms show ?thesis by blast
qed

lemma scanRight_earliest_minimal:
  assumes sc: "scanRight pf la lo c d rows (Fin 3, None) = Inr (cd, bm)"
    and j: "j < length rows" "rightDistance pf la lo c d (rows ! j) = Inr dj" "fless dj (Fin 3)"
    and minimal: "\<forall>k<length rows. \<forall>dk. rightDistance pf la lo c d (rows ! k) = Inr dk \<longrightarrow> \<not> fless dk dj"
    and earliest: "\<forall>k<j. \<forall>dk. rightDistance pf la lo c d (rows ! k) = Inr dk \<longrightarrow> \<not> feq dk dj"
  shows "bm = Some (rows ! j)"
proof -
  let ?D = "rightDistance pf la lo c d"
  from scanRight_sound[OF sc] have alt:
    "(cd = Fin 3 \<and> bm = None \<and> (\<forall>r\<in>set rows. \<forall>ds. ?D r = Inr ds \<longrightarrow> \<not> fless ds (Fin 3))) \<or>
     (\<exists>j'<length rows. bm = Some (rows ! j') \<and> ?D (rows ! j') = Inr cd \<and> fless cd (Fin 3) \<and>
        (\<forall>k<j'. \<forall>dk. ?D (rows ! k) = Inr dk \<longrightarrow> fless cd dk \<or> dk = NaN) \<and>
        (\<forall>k<length rows. \<forall>dk. ?D (rows ! k) = Inr dk \<longrightarrow> \<not> fless dk cd))"
    by (rule conjunct2)
  from alt show ?thesis
  proof
    assume none: "cd = Fin 3 \<and> bm = None \<and>
      (\<forall>r\<in>set rows. \<forall>ds. ?D r = Inr ds \<longrightarrow> \<not> fless ds (Fin 3))"
    from j(1) have "rows ! j \<in> set rows" by (rule nth_mem)
    with none j(2) have "\<not> fless dj (Fin 3)" by blast
    with j(3) show ?thesis by contradiction
  next
    assume "\<exists>j'<length rows. bm = Some (rows ! j') \<and> ?D (rows ! j') = Inr cd \<and> fless cd (Fin 3) \<and>
        (\<forall>k<j'. \<forall>dk. ?D (rows ! k) = Inr dk \<longrightarrow> fless cd dk \<or> dk = NaN) \<and>
        (\<forall>k<length rows. \<forall>dk. ?D (rows ! k) = Inr dk \<longrightarrow> \<not> fless dk cd)"
    then obtain j' where j': "j' < length rows" "bm = Some (rows ! j')" "?D (rows ! j') = Inr cd"
      "fless cd (Fin 3)"
      and before: "\<forall>k<j'. \<forall>dk. ?D (rows ! k) = Inr dk \<longrightarrow> fless cd dk \<or> dk = NaN"
      and least: "\<forall>k<length rows. \<forall>dk. ?D (rows ! k) = Inr dk \<longrightarrow> \<not> fless dk cd"
      by (elim exE conjE)
    from least[rule_format, OF j(1) j(2)] have n1: "\<not> fless dj cd" .
    from minimal[rule_format, OF j'(1) j'(3)] have n2: "\<not> fless cd dj" .
    from fless_both_ways[OF j'(4) j(3) n2 n1] have eq: "feq cd dj" by (rule conjunct2)
    have "j' = j"
    proof (rule ccontr)
      assume "j' \<noteq> j"
      then consider "j' < j" | "j < j'" by linarith
      then show False
      proof cases
        case 1
        from earliest[rule_format, OF 1 j'(3)] eq show False by contradiction
      next
        case 2
        from before[rule_format, OF 2 j(2)] have "fless cd dj \<or> dj = NaN" .
        with n2 have "dj = NaN" by blast
        with j(3) show False by simp
      qed
    qed
    with j'(2) show ?thesis by simp
  qed
qed

lemma scanRight_partner:
  assumes sc: "scanRight pf la lo c d rows (Fin 3, None) = Inr (cd, Some r)"
  shows "\<exists>j<length rows. r = rows ! j \<and>
      (\<exists>ds. rightDistance pf la lo c d (rows ! j) = Inr ds \<and> fless ds (Fin 3) \<and>
         (\<forall>k<length rows. \<forall>dk. rightDistance pf la lo c d (rows ! k) = Inr dk \<longrightarrow> \<not> fless dk ds) \<and>
         (\<forall>k<length rows. \<forall>dk. rightDistance pf la lo c d (rows ! k) = Inr dk \<and> feq dk ds \<longrightarrow> j \<le> k))"
proof -
  let ?D = "rightDistance pf la lo c d"
  from scanRight_match[OF sc] obtain j where j: "j < length rows" "r = rows ! j"
    "?D (rows ! j) = Inr cd" "fless cd (Fin 3)"
    and before: "\<forall>k<j. \<forall>dk. ?D (rows ! k) = Inr dk \<longrightarrow> fless cd dk \<or> dk = NaN"
    and least: "\<forall>k<length rows. \<forall>dk. ?D (rows ! k) = Inr dk \<longrightarrow> \<not> fless dk cd"
    by (elim exE conjE)
  have first: "\<forall>k<length rows. \<forall>dk. ?D (rows ! k) = Inr dk \<and> feq dk cd \<longrightarrow> j \<le> k"
  proof (intro allI impI)
    fix k dk assume k: "k < length rows" and dk: "?D (rows ! k) = Inr dk \<and> feq dk cd"
    show "j \<le> k"
    proof (rule ccontr)
      assume "\<not> j \<le> k"
      then have "k < j" by simp
      from before[rule_format, OF this] dk have "fless cd dk \<or> dk = NaN" by blast
      with dk show False using fless_not_feq feq_NaN by blast
    qed
  qed
  from j least first show ?thesis
    by (intro exI[of _ j] conjI exI[of _ cd]) assumption+
qed

text \<open>
  The join returns for tables that both have a first row and whose data rows all reach
  their two coordinate columns. Whenever it returns, \<open>joined\<close> and \<open>dangling\<close> are the
  two collections of one match assignment for the left data rows, with partners among
  the right data rows.
\<close>

lemma joinDatasets_partition:
  "(csvData \<noteq> [] \<and> excelData \<noteq> [] \<and>
    (\<forall>l\<in>set (tl csvData). 0 \<le> csvLatCol \<and> csvLatCol < int (length l) \<and>
                              0 \<le> csvLonCol \<and> csvLonCol < int (length l)) \<and>
    (\<forall>r\<in>set (tl excelData). 0 \<le> excelLatCol \<and> excelLatCol < int (length r) \<and>
                                0 \<le> excelLonCol \<and> excelLonCol < int (length r))
    \<longrightarrow> (\<exists>joined dangling.
           joinDatasets pf csvData excelData csvLatCol csvLonCol excelLatCol excelLonCol
             = Inr (joined, dangling))) \<and>
   (\<forall>joined dangling.
      joinDatasets pf csvData excelData csvLatCol csvLonCol excelLatCol excelLonCol
        = Inr (joined, dangling) \<longrightarrow>
      (\<exists>ms. length ms = length (tl csvData) \<and>
            (\<forall>i<length ms. \<forall>r. ms ! i = Some r \<longrightarrow> r \<in> set (tl excelData)) \<and>
            joined = matchedOf (tl csvData) ms \<and>
            dangling = danglingOf (tl csvData) ms \<and>
            length joined + length dangling = length (tl csvData) \<and>
            set dangling \<subseteq> set (tl csvData) \<and>
            (\<forall>jr\<in>set joined. \<exists>l\<in>set (tl csvData). \<exists>r\<in>set (tl excelData).
                jr = l @ r \<and> length jr = length l + length r)))"
proof (intro conjI impI allI)
  assume "csvData \<noteq> [] \<and> excelData \<noteq> [] \<and>
    (\<forall>l\<in>set (tl csvData). 0 \<le> csvLatCol \<and> csvLatCol < int (length l) \<and>
                              0 \<le> csvLonCol \<and> csvLonCol < int (length l)) \<and>
    (\<forall>r\<in>set (tl excelData). 0 \<le> excelLatCol \<and> excelLatCol < int (length r) \<and>
                                0 \<le> excelLonCol \<and> excelLonCol < int (length r))"
  then show "\<exists>joined dangling.
           joinDatasets pf csvData excelData csvLatCol csvLonCol excelLatCol excelLonCol
             = Inr (joined, dangling)"
    by (intro joinDatasets_returns) auto
next
  fix joined dangling
  let ?L = "tl csvData" and ?R = "tl excelData"
  assume run: "joinDatasets pf csvData excelData csvLatCol csvLonCol excelLatCol excelLonCol
        = Inr (joined, dangling)"
  from joinDatasets_matches[OF run] obtain ms where ms: "length ms = length ?L"
    "joined = matchedOf ?L ms" "dangling = danglingOf ?L ms"
    and partner: "\<forall>i<length ms. \<forall>r. ms ! i = Some r \<longrightarrow> (\<exists>j<length ?R. r = ?R ! j)"
    by blast
  have inR: "\<forall>i<length ms. \<forall>r. ms ! i = Some r \<longrightarrow> r \<in> set ?R"
    using partner by (metis nth_mem)
  have rows: "\<forall>jr\<in>set joined. \<exists>l\<in>set ?L. \<exists>r\<in>set ?R. jr = l @ r \<and> length jr = length l + length r"
  proof
    fix jr assume "jr \<in> set joined"
    with ms(2) obtain i r where i: "i < length ?L" "i < length ms" "ms ! i = Some r" "jr = ?L ! i @ r"
      using matchedOf_rows by blast
    with inR have "r \<in> set ?R" by blast
    with i show "\<exists>l\<in>set ?L. \<exists>r\<in>set ?R. jr = l @ r \<and> length jr = length l + length r"
      by (intro bexI[of _ "?L ! i"] bexI[of _ r]) auto
  qed
  show "\<exists>ms. length ms = length ?L \<and>
            (\<forall>i<length ms. \<forall>r. ms ! i = Some r \<longrightarrow> r \<in> set ?R) \<and>
            joined = matchedOf ?L ms \<and> dangling = danglingOf ?L ms \<and>
            length joined + length dangling = length ?L \<and> set dangling \<subseteq> set ?L \<and>
            (\<forall>jr\<in>set joined. \<exists>l\<in>set ?L. \<exists>r\<in>set ?R. jr = l @ r \<and> length jr = length l + length r)"
    using ms inR rows partition_lengths[OF ms(1)] danglingOf_subset[of ?L ms]
    by (intro exI[of _ ms]) simp
qed

subsection \<open>normalize\<close>

lemma minMax_Fin:
  "minMax (map Fin xs) (Fin lo, Fin hi) =
     (Fin (Min (insert lo (set xs))), Fin (Max (insert hi (set xs))))"
proof (induction xs arbitrary: lo hi)
  case Nil
  then show ?case by simp
next
  case (Cons x xs)
  have mn: "Min (insert (if x < lo then x else lo) (set xs)) = Min (insert lo (insert x (set xs)))"
    by (cases "set xs = {}") (auto simp: min_def Min_insert2 Min.insert_remove)
  have mx: "Max (insert (if hi < x then x else hi) (set xs)) = Max (insert hi (insert x (set xs)))"
    by (cases "set xs = {}") (auto simp: max_def)
  show ?case
    using Cons.IH[of "if x < lo then x else lo" "if hi < x then x else hi"] mn mx
    by (simp add: if_distrib[of Fin] insert_commute)
qed

lemma normalize_Fin:
  assumes "xs \<noteq> []"
  shows "normalize (map Fin xs) =
    Inr (map (\<lambda>v. fdiv (fsub (Fin v) (Fin (Min (set xs)))) (fsub (Fin (Max (set xs))) (Fin (Min (set xs))))) xs)"
proof -
  from assms obtain x0 rest where xs: "xs = x0 # rest" by (cases xs) auto
  have "minMax (map Fin xs) (Fin x0, Fin x0) = (Fin (Min (set xs)), Fin (Max (set xs)))"
    unfolding minMax_Fin by (simp add: xs)
  then show ?thesis
    by (simp add: normalize_def index_def xs comp_def)
qed

lemma scaled_Fin:
  assumes "mn \<le> v" "v \<le> mx" "mn < mx" "mx - mn < overflowThreshold"
  shows "fdiv (fsub (Fin v) (Fin mn)) (fsub (Fin mx) (Fin mn)) = Fin ((v - mn) / (mx - mn))"
proof -
  have n: "fsub (Fin v) (Fin mn) = Fin (v - mn)"
    using assms by (simp add: fsub_def mk_Fin)
  have d: "fsub (Fin mx) (Fin mn) = Fin (mx - mn)"
    using assms by (simp add: fsub_def mk_Fin)
  have "0 \<le> (v - mn) / (mx - mn)" "(v - mn) / (mx - mn) \<le> 1"
    using assms by simp_all
  then have "\<bar>(v - mn) / (mx - mn)\<bar> \<le> 1000000" by linarith
  then show ?thesis
    unfolding n d using assms by (simp add: mk_small)
qed

lemma normalize_range:
  assumes ne: "xs \<noteq> []" and diff: "Min (set xs) < Max (set xs)"
    and range: "Max (set xs) - Min (set xs) < overflowThreshold"
  shows "normalize (map Fin xs) =
     Inr (map (\<lambda>v. Fin ((v - Min (set xs)) / (Max (set xs) - Min (set xs)))) xs)"
proof -
  have "fdiv (fsub (Fin v) (Fin (Min (set xs)))) (fsub (Fin (Max (set xs))) (Fin (Min (set xs))))
      = Fin ((v - Min (set xs)) / (Max (set xs) - Min (set xs)))" if "v \<in> set xs" for v
    using that diff range by (intro scaled_Fin) auto
  then show ?thesis
    unfolding normalize_Fin[OF ne] by simp
qed

lemma normalize_unit_interval:
  assumes ne: "xs \<noteq> []" and diff: "a \<in> set xs" "b \<in> set xs" "a \<noteq> b"
    and range: "Max (set xs) - Min (set xs) < overflowThreshold"
  shows "\<exists>out. normalize (map Fin xs) = Inr out \<and> length out = length xs \<and>
    Fin 0 \<in> set out \<and> Fin 1 \<in> set out \<and> (\<forall>v\<in>set out. \<exists>r. v = Fin r \<and> 0 \<le> r \<and> r \<le> 1)"
proof -
  let ?mn = "Min (set xs)" and ?mx = "Max (set xs)"
  let ?out = "map (\<lambda>v. Fin ((v - ?mn) / (?mx - ?mn))) xs"
  have fin: "finite (set xs)" "set xs \<noteq> {}" using ne by auto
  have lt: "?mn < ?mx"
  proof -
    have "?mn \<le> a" "?mn \<le> b" "a \<le> ?mx" "b \<le> ?mx" using diff fin by auto
    with diff(3) show ?thesis by linarith
  qed
  have run: "normalize (map Fin xs) = Inr ?out"
    by (rule normalize_range[OF ne lt range])
  have mn_in: "?mn \<in> set xs" and mx_in: "?mx \<in> set xs"
    using fin by (auto intro: Min_in Max_in)
  have zero: "Fin 0 \<in> set ?out"
    using mn_in by (auto simp: image_iff intro!: bexI[of _ ?mn])
  have one: "Fin 1 \<in> set ?out"
    using mx_in lt by (auto simp: image_iff intro!: bexI[of _ ?mx])
  have bounds: "\<forall>v\<in>set ?out. \<exists>r. v = Fin r \<and> 0 \<le> r \<and> r \<le> 1"
  proof
    fix v assume "v \<in> set ?out"
    then obtain x where x: "x \<in> set xs" "v = Fin ((x - ?mn) / (?mx - ?mn))" by auto
    then have "?mn \<le> x" "x \<le> ?mx" using fin by auto
    with lt have "0 \<le> (x - ?mn) / (?mx - ?mn)" "(x - ?mn) / (?mx - ?mn) \<le> 1" by simp_all
    with x show "\<exists>r. v = Fin r \<and> 0 \<le> r \<and> r \<le> 1" by blast
  qed
  from run zero one bounds show ?thesis by (intro exI[of _ ?out]) simp
qed

subsection \<open>runRegression\<close>


lemma firstPredictors_empty_row:
  "[] \<in> set x \<Longrightarrow> firstPredictors x = Inl IndexOutOfRange"
proof (induction x)
  case Nil
  then show ?case by simp
next
  case (Cons row x)
  show ?case
  proof (cases row)
    case Nil
    then show ?thesis by (simp add: index_def)
  next
    case (Cons v rest)
    with Cons.prems Cons.IH show ?thesis by (simp add: index_def)
  qed
qed

lemma normalize_length:
  "normalize data = Inr out \<Longrightarrow> length out = length data"
  by (auto simp: normalize_def split: sum.splits prod.splits)

lemma normalize_nonempty:
  "data \<noteq> [] \<Longrightarrow> \<exists>out. normalize data = Inr out"
  by (cases data) (auto simp: normalize_def index_def split: prod.splits)











lemma runRegression_guard:
  "x = [] \<or> y = [] \<or> hd x = [] \<Longrightarrow>
   runRegression y x = Inl (Fatal ''Error: Insufficient data for regression analysis'')"
  by (auto simp: runRegression_def)

lemma runRegression_later_empty:
  assumes "\<not> (x = [] \<or> y = [] \<or> hd x = [])" "[] \<in> set x"
  shows "runRegression y x = Inl IndexOutOfRange"
  using assms firstPredictors_empty_row[of x] by (simp add: runRegression_def)

lemma synthetic_normalized:
  "normalize [Fin 0, Fin 1, Fin 2, Fin 3, Fin 4, Fin 5, Fin 6, Fin 7, Fin 8, Fin 9] =
     Inr syntheticNormalized"
  by (simp add: normalize_def index_def fsub_def mk_small syntheticNormalized_def)

lemma synthetic_regression:
  "LinearRegression syntheticY syntheticNormalized = Inr (Fin (- (2 / 3)), Fin (1 / 3))"
  by (simp add: LinearRegression_def MeanVariance_def Mean_def floatsSum_def covarianceMeans_def
      syntheticY_def syntheticNormalized_def fsub_def mk_small Let_def)

lemma synthetic_intended:
  "LinearRegression syntheticNormalized syntheticY = Inr (Fin 2, Fin 3)"
  by (simp add: LinearRegression_def MeanVariance_def Mean_def floatsSum_def covarianceMeans_def
      syntheticY_def syntheticNormalized_def fsub_def mk_small Let_def)

lemma synthetic_mean: "Mean syntheticY = Fin (7 / 2)"
  by (simp add: Mean_def floatsSum_def syntheticY_def mk_small)

lemma synthetic_sums:
  "sumsOfSquares (Fin (- (2 / 3))) (Fin (1 / 3)) (Fin (7 / 2)) syntheticY syntheticNormalized
     (Fin 0, Fin 0) = Inr (Fin (55 / 6), Fin (40640 / 243))"
  by (simp add: syntheticY_def syntheticNormalized_def fsub_def mk_small Let_def)

lemma synthetic_preview:
  "previewPairs 10 syntheticY syntheticNormalized = Inr (zip syntheticY syntheticNormalized)"
  by (simp add: syntheticY_def syntheticNormalized_def eval_nat_numeral)

subsection \<open>filterAlgeria and main\<close>





subsection \<open>The example tables\<close>

lemma sampleParse_cells [simp]:
  "parseFloat sampleParse ''0'' = Fin 0" "parseFloat sampleParse ''1'' = Fin 1"
  by (simp_all add: parseFloat_def sampleParse_def)

lemma far_apart: "\<not> fless (Fin (6371 * pi / 180)) (Fin 3)"
  using pi_ge_two by simp

lemma haversine_same_01: "haversine (Fin 0) (Fin 1) (Fin 0) (Fin 1) = Fin 0"
  by (rule haversine_self) (simp add: overflowThreshold_def)

lemma sample_scan_first:
  "scanRight sampleParse (Fin 0) (Fin 0) 1 2 [rightFirst, rightSecond] (Fin 3, None) = Inr (Fin 3, None)"
  by (simp add: rightFirst_def rightSecond_def index_def haversine_one_degree far_apart del: fless.simps)

lemma sample_scan_second:
  "scanRight sampleParse (Fin 0) (Fin 1) 1 2 [rightFirst, rightSecond] (Fin 3, None)
     = Inr (Fin 0, Some rightFirst)"
  by (simp add: rightFirst_def rightSecond_def index_def haversine_same_01)

lemma sample_join_any_header:
  "joinDatasets sampleParse [h, leftFirst, leftSecond] [h', rightFirst, rightSecond]
     4 5 1 2 = Inr ([leftSecond @ rightFirst], [leftFirst])"
proof -
  have c1: "index leftFirst 4 = Inr ''0''" "index leftFirst 5 = Inr ''0''"
    by (simp_all add: leftFirst_def index_def)
  have c2: "index leftSecond 4 = Inr ''0''" "index leftSecond 5 = Inr ''1''"
    by (simp_all add: leftSecond_def index_def)
  show ?thesis
    by (simp only: joinDatasets_def sliceFrom1.simps sum.case joinRows.simps c1 c2
        sampleParse_cells sample_scan_first sample_scan_second prod.case option.case append_Nil)
qed

lemma sample_join:
  "joinDatasets sampleParse [leftHeader, leftFirst, leftSecond] [rightHeader, rightFirst, rightSecond]
     4 5 1 2 = Inr ([leftSecond @ rightFirst], [leftFirst])"
  by (rule sample_join_any_header)




lemma near_distances:
  "haversine (Fin 0) (Fin 0) (Fin 0) (Fin (1 / 50)) = Fin (6371 * (pi / 9000))"
  "haversine (Fin 0) (Fin 0) (Fin 0) (Fin (1 / 100)) = Fin (6371 * (pi / 18000))"
  "haversine (Fin 0) (Fin 0) (Fin 0) (Fin (- (1 / 100))) = Fin (6371 * (pi / 18000))"
  using haversine_equator[of "1 / 50"] haversine_equator[of "1 / 100"]
    haversine_equator[of "- (1 / 100)"]
  by simp_all

lemma near_order:
  "fless (Fin (6371 * (pi / 9000))) (Fin 3)"
  "fless (Fin (6371 * (pi / 18000))) (Fin (6371 * (pi / 9000)))"
  "\<not> fless (Fin (6371 * (pi / 18000))) (Fin (6371 * (pi / 18000)))"
  "fless (Fin (6371 * (pi / 18000))) (Fin 3)"
  "\<not> fless (Fin (6371 * (pi / 9000))) (Fin (6371 * (pi / 18000)))"
  using pi_less_4 pi_gt_zero by simp_all

lemma sampleParse_near [simp]:
  "parseFloat sampleParse ''0.02'' = Fin (1 / 50)"
  "parseFloat sampleParse ''0.01'' = Fin (1 / 100)"
  "parseFloat sampleParse ''-0.01'' = Fin (- (1 / 100))"
  by (simp_all add: parseFloat_def sampleParse_def)

lemma near_rows:
  "rightDistance sampleParse (Fin 0) (Fin 0) 1 2 rightTwo = Inr (Fin (6371 * (pi / 9000)))"
  "rightDistance sampleParse (Fin 0) (Fin 0) 1 2 rightEast = Inr (Fin (6371 * (pi / 18000)))"
  "rightDistance sampleParse (Fin 0) (Fin 0) 1 2 rightWest = Inr (Fin (6371 * (pi / 18000)))"
  by (simp_all add: rightDistance_def rightTwo_def rightEast_def rightWest_def index_def
      near_distances)

lemma near_scan:
  "scanRight sampleParse (Fin 0) (Fin 0) 1 2 [rightTwo, rightEast, rightWest] (Fin 3, None)
     = Inr (Fin (6371 * (pi / 18000)), Some rightEast)"
proof -
  let ?scan = "scanRight sampleParse (Fin 0) (Fin 0) 1 2"
  have "?scan [rightTwo, rightEast, rightWest] (Fin 3, None)
      = ?scan [rightEast, rightWest] (Fin (6371 * (pi / 9000)), Some rightTwo)"
    unfolding scanRight_step[OF near_rows(1)] by (simp only: near_order if_True)
  also have "\<dots> = ?scan [rightWest] (Fin (6371 * (pi / 18000)), Some rightEast)"
    unfolding scanRight_step[OF near_rows(2)] by (simp only: near_order if_True)
  also have "\<dots> = ?scan [] (Fin (6371 * (pi / 18000)), Some rightEast)"
    unfolding scanRight_step[OF near_rows(3)] by (simp only: near_order if_False)
  finally show ?thesis by simp
qed

lemma near_join:
  "joinDatasets sampleParse [leftHeader, leftFirst] [rightHeader, rightTwo, rightEast, rightWest]
     4 5 1 2 = Inr ([leftFirst @ rightEast], [])"
proof -
  have c1: "index leftFirst 4 = Inr ''0''" "index leftFirst 5 = Inr ''0''"
    by (simp_all add: leftFirst_def index_def)
  show ?thesis
    by (simp only: joinDatasets_def sliceFrom1.simps sum.case joinRows.simps c1
        sampleParse_cells near_scan prod.case option.case append_Nil)
qed

lemma near_row_distances:
  "rowDistance sampleParse 4 5 1 2 leftFirst rightTwo = Inr (Fin (6371 * (pi / 9000)))"
  "rowDistance sampleParse 4 5 1 2 leftFirst rightEast = Inr (Fin (6371 * (pi / 18000)))"
  "rowDistance sampleParse 4 5 1 2 leftFirst rightWest = Inr (Fin (6371 * (pi / 18000)))"
proof -
  have c1: "index leftFirst 4 = Inr ''0''" "index leftFirst 5 = Inr ''0''"
    by (simp_all add: leftFirst_def index_def)
  show "rowDistance sampleParse 4 5 1 2 leftFirst rightTwo = Inr (Fin (6371 * (pi / 9000)))"
    "rowDistance sampleParse 4 5 1 2 leftFirst rightEast = Inr (Fin (6371 * (pi / 18000)))"
    "rowDistance sampleParse 4 5 1 2 leftFirst rightWest = Inr (Fin (6371 * (pi / 18000)))"
    by (simp_all only: rowDistance_right[OF c1] sampleParse_cells near_rows)
qed

section \<open>The claims\<close>

subsection \<open>C1: the regression fit\<close>

text \<open>
  C1 says that the fit regresses the target on the normalized predictor, so that the
  noiseless input \<open>y = 2 + 3 * x_norm\<close> over the predictors 0 to 9 gives an
  intercept of 2, a slope of 3 and an R squared of 1. The code hands the target to
  \<^verbatim>\<open>stat.LinearRegression\<close> as its first argument, the independent variable, and the
  normalized predictor as its second: it fits the predictor against the target. On
  the noiseless input it reports the intercept \<open>-2/3\<close>, the slope \<open>1/3\<close> and the
  R squared \<open>-15365/891\<close>.
\<close>

theorem runRegression_synthetic:
  "runRegression syntheticY syntheticX =
     Inr \<lparr>preview = zip syntheticY syntheticNormalized,
          intercept = Fin (- (2 / 3)), slope = Fin (1 / 3), rSquared = Fin (- (15365 / 891))\<rparr>"
proof -
  have first: "firstPredictors syntheticX =
      Inr [Fin 0, Fin 1, Fin 2, Fin 3, Fin 4, Fin 5, Fin 6, Fin 7, Fin 8, Fin 9]"
    by (simp add: syntheticX_def index_def)
  have guard: "\<not> (length syntheticX = 0 \<or> length syntheticY = 0 \<or> length (hd syntheticX) = 0)"
    by (simp add: syntheticX_def syntheticY_def)
  have r2: "fsub (Fin 1) (fdiv (Fin (40640 / 243)) (Fin (55 / 6))) = Fin (- (15365 / 891))"
    by (simp add: fsub_def mk_small)
  show ?thesis
    unfolding runRegression_def
    by (simp only: guard if_False first synthetic_normalized synthetic_preview
        synthetic_regression synthetic_mean synthetic_sums r2 sum.case prod.case)
qed

subsection \<open>C2: the nearest right row, within the threshold\<close>

text \<open>
  C2: whenever the join returns, its matched rows are those of a match assignment
  \<open>ms\<close> in which every partner \<open>r\<close> of a left row is a right data row whose
  distance \<open>ds\<close> from the left row is strictly below 3.0, and no right data row has a
  distance strictly below \<open>ds\<close>.
\<close>

theorem joinDatasets_nearest_within_threshold:
  assumes "joinDatasets pf csvData excelData csvLatCol csvLonCol excelLatCol excelLonCol
             = Inr (joined, dangling)"
  shows "\<exists>ms. length ms = length (tl csvData) \<and> joined = matchedOf (tl csvData) ms \<and>
     (\<forall>i<length ms. \<forall>r. ms ! i = Some r \<longrightarrow>
        r \<in> set (tl excelData) \<and>
        (\<exists>ds. rowDistance pf csvLatCol csvLonCol excelLatCol excelLonCol (tl csvData ! i) r = Inr ds \<and>
           fless ds (Fin 3) \<and>
           (\<forall>r'\<in>set (tl excelData).
              \<exists>ds'. rowDistance pf csvLatCol csvLonCol excelLatCol excelLonCol (tl csvData ! i) r'
                       = Inr ds' \<and> \<not> fless ds' ds)))"
proof -
  let ?dist = "rowDistance pf csvLatCol csvLonCol excelLatCol excelLonCol"
  let ?L = "tl csvData" and ?R = "tl excelData"
  from joinDatasets_matches[OF assms] obtain ms where ms: "length ms = length ?L"
    "joined = matchedOf ?L ms"
    and props: "\<forall>i<length ms. \<forall>r. ms ! i = Some r \<longrightarrow>
        (\<exists>j<length ?R. r = ?R ! j \<and>
          (\<exists>ds. ?dist (?L ! i) (?R ! j) = Inr ds \<and> fless ds (Fin 3) \<and>
             (\<forall>k<j. \<forall>dk. ?dist (?L ! i) (?R ! k) = Inr dk \<longrightarrow> fless ds dk \<or> dk = NaN) \<and>
             (\<forall>k<length ?R. \<exists>dk. ?dist (?L ! i) (?R ! k) = Inr dk \<and> \<not> fless dk ds)))"
    by blast
  have "\<forall>i<length ms. \<forall>r. ms ! i = Some r \<longrightarrow>
        r \<in> set ?R \<and>
        (\<exists>ds. ?dist (?L ! i) r = Inr ds \<and> fless ds (Fin 3) \<and>
           (\<forall>r'\<in>set ?R. \<exists>ds'. ?dist (?L ! i) r' = Inr ds' \<and> \<not> fless ds' ds))"
  proof (intro allI impI)
    fix i r assume i: "i < length ms" and r: "ms ! i = Some r"
    from props[rule_format, OF i r] obtain j ds where j: "j < length ?R" "r = ?R ! j"
      and ds: "?dist (?L ! i) (?R ! j) = Inr ds" "fless ds (Fin 3)"
      and least: "\<forall>k<length ?R. \<exists>dk. ?dist (?L ! i) (?R ! k) = Inr dk \<and> \<not> fless dk ds"
      by (elim exE conjE)
    have nearest: "\<forall>r'\<in>set ?R. \<exists>ds'. ?dist (?L ! i) r' = Inr ds' \<and> \<not> fless ds' ds"
    proof
      fix r' assume "r' \<in> set ?R"
      then obtain k where "k < length ?R" "r' = ?R ! k"
        by (metis in_set_conv_nth)
      with least[rule_format, of k] show "\<exists>ds'. ?dist (?L ! i) r' = Inr ds' \<and> \<not> fless ds' ds"
        by simp
    qed
    have "r \<in> set ?R"
      using j by (metis nth_mem)
    moreover have "?dist (?L ! i) r = Inr ds"
      using ds(1) j(2) by simp
    ultimately show "r \<in> set ?R \<and>
        (\<exists>ds. ?dist (?L ! i) r = Inr ds \<and> fless ds (Fin 3) \<and>
           (\<forall>r'\<in>set ?R. \<exists>ds'. ?dist (?L ! i) r' = Inr ds' \<and> \<not> fless ds' ds))"
      using ds(2) nearest by (intro conjI exI[of _ ds]) assumption+
  qed
  with ms show ?thesis
    by (intro exI[of _ ms] conjI) assumption+
qed

theorem joinDatasets_nearest_within_threshold_witness:
  "joinDatasets sampleParse [leftHeader, leftFirst, leftSecond] [rightHeader, rightFirst, rightSecond] 4 5 1 2 = Inr ([leftSecond @ rightFirst], [leftFirst]) \<and>
   (\<exists>ms. length ms = length (tl [leftHeader, leftFirst, leftSecond]) \<and>
     [leftSecond @ rightFirst] = matchedOf (tl [leftHeader, leftFirst, leftSecond]) ms \<and>
     (\<forall>i<length ms. \<forall>r. ms ! i = Some r \<longrightarrow>
        r \<in> set (tl [rightHeader, rightFirst, rightSecond]) \<and>
        (\<exists>ds. rowDistance sampleParse 4 5 1 2 (tl [leftHeader, leftFirst, leftSecond] ! i) r = Inr ds \<and>
           fless ds (Fin 3) \<and>
           (\<forall>r'\<in>set (tl [rightHeader, rightFirst, rightSecond]).
              \<exists>ds'. rowDistance sampleParse 4 5 1 2 (tl [leftHeader, leftFirst, leftSecond] ! i) r' = Inr ds' \<and>
                    \<not> fless ds' ds))))"
  using sample_join joinDatasets_nearest_within_threshold[OF sample_join] by (rule conjI)

subsection \<open>C3: rows shorter than the coordinate columns\<close>

text \<open>
  C3 says that a cell beyond the end of a row counts as absent and that the join
  completes on a table with a row shorter than the latitude and longitude columns.
  \<open>filterAlgeria\<close> and \<open>extractRegressionData\<close> compare the length of a row with the
  column before they read the cell; \<open>joinDatasets\<close> reads it unguarded. With a right
  row of one cell the run ends in the index panic.
\<close>

theorem joinDatasets_short_right_row:
  "joinDatasets sampleParse [leftHeader, leftFirst] [rightHeader, [''Algeria'']] 4 5 1 2
     = Inl IndexOutOfRange"
  by (simp add: joinDatasets_def leftFirst_def index_def)

subsection \<open>C4: zero variance\<close>




subsection \<open>C5: the partition of the left rows\<close>

text \<open>
  C5 says that for every pair of tables every left data row is in exactly one of
  \<open>matched\<close> and \<open>dangling\<close>. \<open>joinDatasets\<close> reads the two coordinate cells of a left
  row without comparing the length of the row with the columns, as \<open>filterAlgeria\<close>
  and \<open>extractRegressionData\<close> do before they read a cell. On a left table of three
  columns, with the columns 4 and 5 for the coordinates, the run ends in the index
  panic: the left data row is emitted to neither collection.
\<close>

theorem joinDatasets_short_left_row:
  "joinDatasets sampleParse
     [[''Country'', ''Latitude'', ''Longitude''], [''Algeria'', ''0'', ''0'']]
     [rightHeader, rightFirst] 4 5 1 2
     = Inl IndexOutOfRange"
  by (simp add: joinDatasets_def index_def)

subsection \<open>C6: ties\<close>

text \<open>
  C6: whenever the join returns, it has matched the left rows as one assignment \<open>ms\<close>
  says, and for every left row: if a right data row at index \<open>j\<close> has a distance below
  3.0 that no right data row undercuts, and no right data row before \<open>j\<close> has an equal
  distance (Go's \<open>==\<close>), then the left row is matched, and with the row at \<open>j\<close>. So
  of two or more right rows at the same minimal distance below the threshold the one
  with the least index is joined. Conversely every partner is such a row: its distance
  is below 3.0 and minimal, and every right row at an equal distance stands at its
  index or later.
\<close>

theorem joinDatasets_tie_break:
  assumes "joinDatasets pf csvData excelData csvLatCol csvLonCol excelLatCol excelLonCol
             = Inr (joined, dangling)"
  shows "\<exists>ms. length ms = length (tl csvData) \<and> joined = matchedOf (tl csvData) ms \<and>
     dangling = danglingOf (tl csvData) ms \<and>
     (\<forall>i<length ms. \<forall>j<length (tl excelData). \<forall>dj.
        rowDistance pf csvLatCol csvLonCol excelLatCol excelLonCol
          (tl csvData ! i) (tl excelData ! j) = Inr dj \<and>
        fless dj (Fin 3) \<and>
        (\<forall>k<length (tl excelData). \<forall>dk.
           rowDistance pf csvLatCol csvLonCol excelLatCol excelLonCol
             (tl csvData ! i) (tl excelData ! k) = Inr dk \<longrightarrow> \<not> fless dk dj) \<and>
        (\<forall>k<j. \<forall>dk.
           rowDistance pf csvLatCol csvLonCol excelLatCol excelLonCol
             (tl csvData ! i) (tl excelData ! k) = Inr dk \<longrightarrow> \<not> feq dk dj)
        \<longrightarrow> ms ! i = Some (tl excelData ! j)) \<and>
     (\<forall>i<length ms. \<forall>r. ms ! i = Some r \<longrightarrow>
        (\<exists>j<length (tl excelData). r = tl excelData ! j \<and>
          (\<exists>ds. rowDistance pf csvLatCol csvLonCol excelLatCol excelLonCol
                   (tl csvData ! i) (tl excelData ! j) = Inr ds \<and>
             fless ds (Fin 3) \<and>
             (\<forall>k<length (tl excelData). \<forall>dk.
                 rowDistance pf csvLatCol csvLonCol excelLatCol excelLonCol
                   (tl csvData ! i) (tl excelData ! k) = Inr dk \<longrightarrow> \<not> fless dk ds) \<and>
             (\<forall>k<length (tl excelData). \<forall>dk.
                 rowDistance pf csvLatCol csvLonCol excelLatCol excelLonCol
                   (tl csvData ! i) (tl excelData ! k) = Inr dk \<and> feq dk ds \<longrightarrow> j \<le> k))))"
proof -
  let ?dist = "rowDistance pf csvLatCol csvLonCol excelLatCol excelLonCol"
  let ?L = "tl csvData" and ?R = "tl excelData"
  from joinDatasets_sound[OF assms] obtain ms where ms: "length ms = length ?L"
    "joined = matchedOf ?L ms" "dangling = danglingOf ?L ms"
    and scans: "\<forall>i<length ?L. \<exists>latCell lonCell cd.
            index (?L ! i) csvLatCol = Inr latCell \<and> index (?L ! i) csvLonCol = Inr lonCell \<and>
            scanRight pf (parseFloat pf latCell) (parseFloat pf lonCell) excelLatCol excelLonCol
              ?R (Fin 3, None) = Inr (cd, ms ! i)"
    by (elim exE conjE)
  have earliest: "\<forall>i<length ms. \<forall>j<length ?R. \<forall>dj.
        ?dist (?L ! i) (?R ! j) = Inr dj \<and> fless dj (Fin 3) \<and>
        (\<forall>k<length ?R. \<forall>dk. ?dist (?L ! i) (?R ! k) = Inr dk \<longrightarrow> \<not> fless dk dj) \<and>
        (\<forall>k<j. \<forall>dk. ?dist (?L ! i) (?R ! k) = Inr dk \<longrightarrow> \<not> feq dk dj)
        \<longrightarrow> ms ! i = Some (?R ! j)"
  proof (intro allI impI)
    fix i j dj
    assume i: "i < length ms" and j: "j < length ?R"
      and h: "?dist (?L ! i) (?R ! j) = Inr dj \<and> fless dj (Fin 3) \<and>
        (\<forall>k<length ?R. \<forall>dk. ?dist (?L ! i) (?R ! k) = Inr dk \<longrightarrow> \<not> fless dk dj) \<and>
        (\<forall>k<j. \<forall>dk. ?dist (?L ! i) (?R ! k) = Inr dk \<longrightarrow> \<not> feq dk dj)"
    from i ms(1) have "i < length ?L" by simp
    from scans[rule_format, OF this] obtain latCell lonCell cd where
      cells: "index (?L ! i) csvLatCol = Inr latCell" "index (?L ! i) csvLonCol = Inr lonCell" and
      sc: "scanRight pf (parseFloat pf latCell) (parseFloat pf lonCell) excelLatCol excelLonCol
              ?R (Fin 3, None) = Inr (cd, ms ! i)"
      by (elim exE conjE)
    have rd: "?dist (?L ! i) r' =
        rightDistance pf (parseFloat pf latCell) (parseFloat pf lonCell) excelLatCol excelLonCol r'"
      for r'
      by (rule rowDistance_right[OF cells])
    from h show "ms ! i = Some (?R ! j)"
      unfolding rd
      by (intro scanRight_earliest_minimal[OF sc j]) (elim conjE, assumption)+
  qed
  have partner: "\<forall>i<length ms. \<forall>r. ms ! i = Some r \<longrightarrow>
        (\<exists>j<length ?R. r = ?R ! j \<and>
          (\<exists>ds. ?dist (?L ! i) (?R ! j) = Inr ds \<and> fless ds (Fin 3) \<and>
             (\<forall>k<length ?R. \<forall>dk. ?dist (?L ! i) (?R ! k) = Inr dk \<longrightarrow> \<not> fless dk ds) \<and>
             (\<forall>k<length ?R. \<forall>dk. ?dist (?L ! i) (?R ! k) = Inr dk \<and> feq dk ds \<longrightarrow> j \<le> k)))"
  proof (intro allI impI)
    fix i r
    assume i: "i < length ms" and r: "ms ! i = Some r"
    from i ms(1) have "i < length ?L" by simp
    from scans[rule_format, OF this] obtain latCell lonCell cd where
      cells: "index (?L ! i) csvLatCol = Inr latCell" "index (?L ! i) csvLonCol = Inr lonCell" and
      sc: "scanRight pf (parseFloat pf latCell) (parseFloat pf lonCell) excelLatCol excelLonCol
              ?R (Fin 3, None) = Inr (cd, ms ! i)"
      by (elim exE conjE)
    have rd: "?dist (?L ! i) r' =
        rightDistance pf (parseFloat pf latCell) (parseFloat pf lonCell) excelLatCol excelLonCol r'"
      for r'
      by (rule rowDistance_right[OF cells])
    from sc r have "scanRight pf (parseFloat pf latCell) (parseFloat pf lonCell) excelLatCol
        excelLonCol ?R (Fin 3, None) = Inr (cd, Some r)"
      by simp
    from scanRight_partner[OF this]
    show "\<exists>j<length ?R. r = ?R ! j \<and>
          (\<exists>ds. ?dist (?L ! i) (?R ! j) = Inr ds \<and> fless ds (Fin 3) \<and>
             (\<forall>k<length ?R. \<forall>dk. ?dist (?L ! i) (?R ! k) = Inr dk \<longrightarrow> \<not> fless dk ds) \<and>
             (\<forall>k<length ?R. \<forall>dk. ?dist (?L ! i) (?R ! k) = Inr dk \<and> feq dk ds \<longrightarrow> j \<le> k))"
      unfolding rd .
  qed
  from ms earliest partner show ?thesis
    by (intro exI[of _ ms] conjI) assumption+
qed

theorem joinDatasets_tie_break_witness:
  "joinDatasets sampleParse [leftHeader, leftFirst] [rightHeader, rightTwo, rightEast, rightWest] 4 5 1 2 = Inr ([leftFirst @ rightEast], []) \<and>
   rowDistance sampleParse 4 5 1 2 leftFirst rightTwo = Inr (Fin (6371 * (pi / 9000))) \<and>
   rowDistance sampleParse 4 5 1 2 leftFirst rightEast = Inr (Fin (6371 * (pi / 18000))) \<and>
   rowDistance sampleParse 4 5 1 2 leftFirst rightWest = Inr (Fin (6371 * (pi / 18000))) \<and>
   fless (Fin (6371 * (pi / 18000))) (Fin 3) \<and>
   fless (Fin (6371 * (pi / 18000))) (Fin (6371 * (pi / 9000))) \<and>
   feq (Fin (6371 * (pi / 18000))) (Fin (6371 * (pi / 18000))) \<and>
   (\<exists>ms. length ms = length (tl [leftHeader, leftFirst]) \<and> [leftFirst @ rightEast] = matchedOf (tl [leftHeader, leftFirst]) ms \<and>
     [] = danglingOf (tl [leftHeader, leftFirst]) ms \<and>
     (\<forall>i<length ms. \<forall>j<length (tl [rightHeader, rightTwo, rightEast, rightWest]). \<forall>dj.
        rowDistance sampleParse 4 5 1 2 (tl [leftHeader, leftFirst] ! i) (tl [rightHeader, rightTwo, rightEast, rightWest] ! j) = Inr dj \<and>
        fless dj (Fin 3) \<and>
        (\<forall>k<length (tl [rightHeader, rightTwo, rightEast, rightWest]). \<forall>dk.
           rowDistance sampleParse 4 5 1 2 (tl [leftHeader, leftFirst] ! i) (tl [rightHeader, rightTwo, rightEast, rightWest] ! k) = Inr dk \<longrightarrow> \<not> fless dk dj) \<and>
        (\<forall>k<j. \<forall>dk.
           rowDistance sampleParse 4 5 1 2 (tl [leftHeader, leftFirst] ! i) (tl [rightHeader, rightTwo, rightEast, rightWest] ! k) = Inr dk \<longrightarrow> \<not> feq dk dj)
        \<longrightarrow> ms ! i = Some (tl [rightHeader, rightTwo, rightEast, rightWest] ! j)) \<and>
     (\<forall>i<length ms. \<forall>r. ms ! i = Some r \<longrightarrow>
        (\<exists>j<length (tl [rightHeader, rightTwo, rightEast, rightWest]). r = tl [rightHeader, rightTwo, rightEast, rightWest] ! j \<and>
          (\<exists>ds. rowDistance sampleParse 4 5 1 2 (tl [leftHeader, leftFirst] ! i) (tl [rightHeader, rightTwo, rightEast, rightWest] ! j) = Inr ds \<and>
             fless ds (Fin 3) \<and>
             (\<forall>k<length (tl [rightHeader, rightTwo, rightEast, rightWest]). \<forall>dk.
                 rowDistance sampleParse 4 5 1 2 (tl [leftHeader, leftFirst] ! i) (tl [rightHeader, rightTwo, rightEast, rightWest] ! k) = Inr dk \<longrightarrow>
                 \<not> fless dk ds) \<and>
             (\<forall>k<length (tl [rightHeader, rightTwo, rightEast, rightWest]). \<forall>dk.
                 rowDistance sampleParse 4 5 1 2 (tl [leftHeader, leftFirst] ! i) (tl [rightHeader, rightTwo, rightEast, rightWest] ! k) = Inr dk \<and>
                 feq dk ds \<longrightarrow> j \<le> k)))))"
proof -
  have eq: "feq (Fin (6371 * (pi / 18000))) (Fin (6371 * (pi / 18000)))"
    by simp
  show ?thesis
    by (intro conjI near_join near_row_distances near_order(4) near_order(2) eq
        joinDatasets_tie_break[OF near_join])
qed

subsection \<open>C7: the precondition of the fit\<close>

text \<open>
  C7: on an empty sample list, an empty target vector or a sample without a
  predictor, \<open>runRegression\<close> returns no result. The guard ends the run with
  \<^verbatim>\<open>log.Fatalf\<close> when the sample list, the target vector or the first sample is empty;
  an empty sample further down passes the guard and ends the run in the index panic of
  \<^verbatim>\<open>row[0]\<close>.
\<close>

theorem runRegression_precondition:
  assumes "x = [] \<or> y = [] \<or> [] \<in> set x"
  shows "runRegression y x =
    (if x = [] \<or> y = [] \<or> hd x = []
     then Inl (Fatal ''Error: Insufficient data for regression analysis'')
     else Inl IndexOutOfRange)"
proof (cases "x = [] \<or> y = [] \<or> hd x = []")
  case True
  then show ?thesis by (simp add: runRegression_guard)
next
  case False
  with assms have "[] \<in> set x" by blast
  with False show ?thesis by (simp add: runRegression_later_empty)
qed

theorem runRegression_precondition_witness:
  "runRegression [] [[Fin 1]] = Inl (Fatal ''Error: Insufficient data for regression analysis'') \<and>
   runRegression [Fin 1] [] = Inl (Fatal ''Error: Insufficient data for regression analysis'') \<and>
   runRegression [Fin 1] [[]] = Inl (Fatal ''Error: Insufficient data for regression analysis'') \<and>
   runRegression [Fin 1, Fin 2] [[Fin 1], []] = Inl IndexOutOfRange"
  using runRegression_precondition[of "[[Fin 1]]" "[]"]
    runRegression_precondition[of "[]" "[Fin 1]"]
    runRegression_precondition[of "[[]]" "[Fin 1]"]
    runRegression_precondition[of "[[Fin 1], []]" "[Fin 1, Fin 2]"]
  by simp

subsection \<open>C8: the range of normalize\<close>

text \<open>
  C8 as stated fails where the range of the input overflows: for the two finite
  values \<open>-2^1023\<close> and \<open>2^1023\<close> the difference of maximum and minimum is infinite,
  and the output is 0 and NaN.
\<close>

theorem normalize_overflow_counterexample:
  "normalize [Fin (- (2 ^ 1023)), Fin (2 ^ 1023)] = Inr [Fin 0, NaN]"
  by (simp add: normalize_def index_def fsub_def mk_def overflowThreshold_def signedInf_def)

text \<open>
  C8, amended. For every non-empty input the output has the length of the input. When
  the input holds finite values that are not all equal and the difference of its
  maximum and its minimum does not overflow, the output holds 0 and 1, and all its
  values are finite and between 0 and 1.
\<close>

theorem normalize_unit_range:
  assumes "data \<noteq> []"
  shows "\<exists>out. normalize data = Inr out \<and> length out = length data \<and>
    (\<forall>xs a b. data = map Fin xs \<and> a \<in> set xs \<and> b \<in> set xs \<and> a \<noteq> b \<and>
        Max (set xs) - Min (set xs) < overflowThreshold \<longrightarrow>
      Fin 0 \<in> set out \<and> Fin 1 \<in> set out \<and> (\<forall>v\<in>set out. \<exists>r. v = Fin r \<and> 0 \<le> r \<and> r \<le> 1))"
proof -
  from normalize_nonempty[OF assms] obtain out where out: "normalize data = Inr out" by blast
  then have len: "length out = length data" by (rule normalize_length)
  have "Fin 0 \<in> set out \<and> Fin 1 \<in> set out \<and> (\<forall>v\<in>set out. \<exists>r. v = Fin r \<and> 0 \<le> r \<and> r \<le> 1)"
    if "data = map Fin xs" "a \<in> set xs" "b \<in> set xs" "a \<noteq> b"
      "Max (set xs) - Min (set xs) < overflowThreshold" for xs a b
  proof -
    from that(2) have "xs \<noteq> []" by auto
    from normalize_unit_interval[OF this that(2,3,4,5)] out that(1) show ?thesis by auto
  qed
  with out len show ?thesis by blast
qed

theorem normalize_unit_range_witness:
  "normalize [Fin 3, Fin 1, Fin 2] = Inr [Fin 1, Fin 0, Fin (1 / 2)] \<and>
   Fin 0 \<in> set [Fin 1, Fin 0, Fin (1 / 2)] \<and> Fin 1 \<in> set [Fin 1, Fin 0, Fin (1 / 2)]"
proof -
  have run: "normalize [Fin 3, Fin 1, Fin 2] = Inr [Fin 1, Fin 0, Fin (1 / 2)]"
    by (simp add: normalize_def index_def fsub_def mk_small)
  have range: "Max (set [3, 1, 2 :: real]) - Min (set [3, 1, 2]) < overflowThreshold"
    by (simp add: overflowThreshold_def)
  from normalize_unit_range[of "[Fin 3, Fin 1, Fin 2]"] run
  have "\<forall>xs a b. [Fin 3, Fin 1, Fin 2] = map Fin xs \<and> a \<in> set xs \<and> b \<in> set xs \<and> a \<noteq> b \<and>
        Max (set xs) - Min (set xs) < overflowThreshold \<longrightarrow>
      Fin 0 \<in> set [Fin 1, Fin 0, Fin (1 / 2)] \<and> Fin 1 \<in> set [Fin 1, Fin 0, Fin (1 / 2)] \<and>
      (\<forall>v\<in>set [Fin 1, Fin 0, Fin (1 / 2)]. \<exists>r. v = Fin r \<and> 0 \<le> r \<and> r \<le> 1)"
    by simp
  from this[rule_format, of "[3, 1, 2]" 3 1] range run show ?thesis
    by simp
qed

subsection \<open>C9: haversine\<close>

text \<open>
  C9: for a latitude and a longitude that are finite float64 values, the distance
  from the point to itself is 0; the distance from (0, 0) to (0, 1) is
  \<open>6371 * pi / 180\<close>, within half a kilometre of 111.19.
\<close>

theorem haversine_sanity:
  assumes "\<bar>lat\<bar> < overflowThreshold"
  shows "haversine (Fin lat) (Fin lon) (Fin lat) (Fin lon) = Fin 0 \<and>
    (\<exists>km. haversine (Fin 0) (Fin 0) (Fin 0) (Fin 1) = Fin km \<and> \<bar>km - 111.19\<bar> \<le> 0.5)"
  using haversine_self[OF assms] haversine_one_degree one_degree_km by blast

theorem haversine_sanity_witness:
  "\<bar>36.75\<bar> < overflowThreshold \<and>
   haversine (Fin 36.75) (Fin 3.06) (Fin 36.75) (Fin 3.06) = Fin 0"
proof -
  have "\<bar>36.75\<bar> < overflowThreshold"
    by (simp add: overflowThreshold_def)
  with haversine_sanity[of "36.75" "3.06"] show ?thesis by blast
qed

subsection \<open>C10: the first filtered row is taken for a header\<close>



end
